theory Spec2Isabelle
  imports Main "HOL-Library.AList" "HOL-Library.Word"
begin

section \<open>JavaScript values\<close>

text \<open>
  The store keeps one JavaScript value in memory. Numbers are IEEE doubles in the source;
  the model keeps the integers from \<open>- 2^53\<close> to \<open>2^53 - 1\<close>, as the signed value of a
  54-bit word (\<open>Fin w\<close> is the number \<open>sint w\<close>), and the three non-finite numbers.
  On these integers \<^verbatim>\<open>Number::toString\<close> is the decimal numeral and every integer is a
  double. Numbers with a fractional part and integers of larger magnitude, which
  JavaScript prints rounded or in exponent notation, are not represented: no value of
  the model stands for them. An array carries its elements and, as in JavaScript, any further named
  properties; a hole in an array reads as \<open>undefined\<close> and is kept as \<open>JUndefined\<close>.
  An object is its own properties in insertion order. \<open>JFunction\<close> stands for any
  function value. A string is a list of 8-bit characters.
\<close>

datatype jsnum = Fin "54 word" | NaN | PosInf | NegInf

datatype jsval =
    JUndefined
  | JNull
  | JBool bool
  | JNum jsnum
  | JStr string
  | JArr "jsval list" "(string \<times> jsval) list"
  | JObj "(string \<times> jsval) list"
  | JFunction

text \<open>The \<^verbatim>\<open>typeof\<close> operator.\<close>

fun typeof :: "jsval \<Rightarrow> string" where
  "typeof JUndefined = ''undefined''"
| "typeof JNull = ''object''"
| "typeof (JBool b) = ''boolean''"
| "typeof (JNum n) = ''number''"
| "typeof (JStr s) = ''string''"
| "typeof (JArr xs ps) = ''object''"
| "typeof (JObj ps) = ''object''"
| "typeof JFunction = ''function''"

text \<open>The test \<^verbatim>\<open>x == null\<close>: true of \<^verbatim>\<open>null\<close> and \<^verbatim>\<open>undefined\<close> only.\<close>

fun nullish :: "jsval \<Rightarrow> bool" where
  "nullish JUndefined = True"
| "nullish JNull = True"
| "nullish _ = False"

text \<open>
  A validated path key: a string, or a finite number (\<^verbatim>\<open>(string | number)[]\<close> in the
  source's type annotations), the number as in \<open>Fin\<close>.
\<close>

datatype key = KStr string | KNum "54 word"

section \<open>Errors\<close>

text \<open>
  Every \<^verbatim>\<open>throw\<close> and every rejected promise of the source is a value of this type.
  The source throws plain \<^verbatim>\<open>Error\<close> objects that differ in their message; each throw
  site has a constructor here, carrying what the message is built from, and \<open>message\<close>
  below renders the text. \<open>SystemError c\<close> is a rejection of \<^verbatim>\<open>node:fs\<close> with
  \<^verbatim>\<open>err.code = c\<close>. \<open>Thrown m\<close> is an error raised by code the caller supplies (a mutator,
  a default factory) or by \<^verbatim>\<open>JSON.parse\<close> and \<^verbatim>\<open>JSON.stringify\<close>. \<open>OutsideModel\<close> marks
  the few places where the behaviour of the source depends on parts of the JavaScript
  runtime that this model does not represent (the \<^verbatim>\<open>__proto__\<close> accessor, assigning an
  array's \<^verbatim>\<open>length\<close>, property reads on primitive wrappers, spreading an array or a
  string into an object).
\<close>

datatype error =
    NotInitialized
  | DirectoryMissing string
  | ParseFailure string error
  | FileMissing string error
  | SystemError string
  | InvalidKeyNotFinite nat jsnum
  | InvalidKeyType nat string
  | EmptyPath
  | ArrayAutoCreateRefused "key list"
  | TraversalFailure "key list"
  | TypeError
  | DataCloneError
  | Thrown string
  | OutsideModel

text \<open>\<^verbatim>\<open>err.code\<close>: only the rejections of the file system carry one.\<close>

fun err_code :: "error \<Rightarrow> string option" where
  "err_code (SystemError c) = Some c"
| "err_code _ = None"

section \<open>Rendering numbers, strings and paths\<close>

definition digit_char :: "nat \<Rightarrow> char" where
  "digit_char d = char_of (48 + d)"

function show_nat :: "nat \<Rightarrow> string" where
  "show_nat n = (if n < 10 then [digit_char n] else show_nat (n div 10) @ [digit_char (n mod 10)])"
  by pat_completeness auto
termination
  by (relation "measure id") auto

declare show_nat.simps [simp del]

text \<open>
  \<^verbatim>\<open>Number::toString\<close> on the numbers of the model: the decimal numeral of the
  integer, with a minus sign when it is negative.
\<close>

fun number_to_string :: "jsnum \<Rightarrow> string" where
  "number_to_string (Fin w) =
     (if sint w < 0 then ''-'' @ show_nat (nat (- sint w)) else show_nat (nat (sint w)))"
| "number_to_string NaN = ''NaN''"
| "number_to_string PosInf = ''Infinity''"
| "number_to_string NegInf = ''-Infinity''"

definition hex_char :: "nat \<Rightarrow> char" where
  "hex_char d = (if d < 10 then char_of (48 + d) else char_of (87 + d))"

text \<open>\<^verbatim>\<open>JSON.stringify\<close> of a string: the ECMAScript operation QuoteJSONString.\<close>

definition json_escape :: "char \<Rightarrow> string" where
  "json_escape c =
     (if c = CHR 0x22 then [CHR 0x5C, CHR 0x22]
      else if c = CHR 0x5C then [CHR 0x5C, CHR 0x5C]
      else if c = CHR 0x08 then [CHR 0x5C, CHR ''b'']
      else if c = CHR 0x0C then [CHR 0x5C, CHR ''f'']
      else if c = CHR 0x0A then [CHR 0x5C, CHR ''n'']
      else if c = CHR 0x0D then [CHR 0x5C, CHR ''r'']
      else if c = CHR 0x09 then [CHR 0x5C, CHR ''t'']
      else if (of_char c :: nat) < 32 then
        [CHR 0x5C, CHR ''u'', CHR ''0'', CHR ''0'', hex_char (of_char c div 16), hex_char (of_char c mod 16)]
      else [c])"

definition json_quote :: "string \<Rightarrow> string" where
  "json_quote s = [CHR 0x22] @ concat (map json_escape s) @ [CHR 0x22]"

text \<open>\<^verbatim>\<open>JSON.stringify(k)\<close> for a path key \<open>k\<close>.\<close>

fun json_of_key :: "key \<Rightarrow> string" where
  "json_of_key (KStr s) = json_quote s"
| "json_of_key (KNum n) = number_to_string (Fin n)"

text \<open>The regular expression \<^verbatim>\<open>/^[a-zA-Z_$][a-zA-Z0-9_$]*$/\<close> of \<^verbatim>\<open>#formatPath\<close>.\<close>

definition ident_start :: "char \<Rightarrow> bool" where
  "ident_start c =
     (let n = (of_char c :: nat)
      in (97 \<le> n \<and> n \<le> 122) \<or> (65 \<le> n \<and> n \<le> 90) \<or> c = CHR ''_'' \<or> c = CHR ''$'')"

definition ident_part :: "char \<Rightarrow> bool" where
  "ident_part c = (ident_start c \<or> (48 \<le> (of_char c :: nat) \<and> (of_char c :: nat) \<le> 57))"

fun is_identifier :: "string \<Rightarrow> bool" where
  "is_identifier [] = False"
| "is_identifier (c # cs) = (ident_start c \<and> list_all ident_part cs)"

text \<open>
  \<^verbatim>\<open>#formatPath\<close>: the loop appends to \<open>result\<close>; a string is truthy when it is not
  empty.
\<close>

fun formatPath_loop :: "string \<Rightarrow> key list \<Rightarrow> string" where
  "formatPath_loop result [] = result"
| "formatPath_loop result (KNum n # keys) =
     formatPath_loop (result @ ''['' @ number_to_string (Fin n) @ '']'') keys"
| "formatPath_loop result (KStr k # keys) =
     (if is_identifier k
      then formatPath_loop (result @ (if result \<noteq> [] then ''.'' @ k else k)) keys
      else formatPath_loop (result @ ''['' @ json_quote k @ '']'') keys)"

definition formatPath :: "key list \<Rightarrow> string" where
  "formatPath keys = (if keys = [] then ''(empty path)'' else formatPath_loop [] keys)"

text \<open>\<^verbatim>\<open>arr.join(sep)\<close> on strings.\<close>

fun join :: "string \<Rightarrow> string list \<Rightarrow> string" where
  "join sep [] = []"
| "join sep [x] = x"
| "join sep (x # y # ys) = x @ sep @ join sep (y # ys)"

text \<open>The message of each error, as the template literals of the source build it.\<close>

fun message :: "error \<Rightarrow> string" where
  "message NotInitialized = ''JSONStore not initialized. Call load() first.''"
| "message (DirectoryMissing dir) = ''Directory does not exist: '' @ dir"
| "message (ParseFailure path cause) =
     ''Failed to parse JSON from '' @ path @ '': '' @ message cause"
| "message (FileMissing path cause) = ''File does not exist: '' @ path"
| "message (SystemError c) = c"
| "message (InvalidKeyNotFinite i n) =
     ''Invalid key at index '' @ show_nat i @ '': numbers must be finite (got ''
       @ number_to_string n @ '')''"
| "message (InvalidKeyType i t) =
     ''Invalid key at index '' @ show_nat i @ '': expected string or number, got '' @ t"
| "message EmptyPath = ''Path cannot be empty''"
| "message (ArrayAutoCreateRefused pathKeys) =
     ''Cannot auto-create array at '' @ [CHR 0x27] @ formatPath pathKeys @ [CHR 0x27] @ ''. ''
       @ ''Initialize it first with setPath(['' @ join '', '' (map json_of_key pathKeys) @ ''], [])''"
| "message (TraversalFailure pathKeys) =
     ''Cannot traverse through non-object at '' @ [CHR 0x27] @ formatPath pathKeys @ [CHR 0x27]"
| "message TypeError = ''TypeError''"
| "message DataCloneError = ''DataCloneError''"
| "message (Thrown m) = m"
| "message OutsideModel = ''(outside the model)''"

section \<open>Key validation\<close>

text \<open>
  \<^verbatim>\<open>#validateKeys\<close>. The loop index \<open>i\<close> is carried along. A key of type number is
  \<open>JNum\<close>; \<^verbatim>\<open>Number.isFinite\<close> holds of \<open>JNum (Fin n)\<close> only. The source returns the
  array it was given, retyped; the model returns the keys at the narrower type.
\<close>

fun validateKeys_from :: "nat \<Rightarrow> jsval list \<Rightarrow> error + key list" where
  "validateKeys_from i [] = Inr []"
| "validateKeys_from i (JNum (Fin n) # keys) =
     (case validateKeys_from (Suc i) keys of Inl e \<Rightarrow> Inl e | Inr ks \<Rightarrow> Inr (KNum n # ks))"
| "validateKeys_from i (JNum x # keys) = Inl (InvalidKeyNotFinite i x)"
| "validateKeys_from i (JStr s # keys) =
     (case validateKeys_from (Suc i) keys of Inl e \<Rightarrow> Inl e | Inr ks \<Rightarrow> Inr (KStr s # ks))"
| "validateKeys_from i (k # keys) = Inl (InvalidKeyType i (typeof k))"

definition validateKeys :: "jsval list \<Rightarrow> error + key list" where
  "validateKeys keys = validateKeys_from 0 keys"

section \<open>Property access\<close>

text \<open>
  A property name is a string; a numeric key is converted by \<^verbatim>\<open>ToString\<close>, so that
  \<^verbatim>\<open>obj[1]\<close> and \<^verbatim>\<open>obj["1"]\<close> are one property.
\<close>

fun prop_name :: "key \<Rightarrow> string" where
  "prop_name (KStr s) = s"
| "prop_name (KNum n) = number_to_string (Fin n)"

text \<open>
  An array index is a canonical numeral below \<open>2^32 - 1\<close>: digits only, no leading zero.
\<close>

definition is_digit :: "char \<Rightarrow> bool" where
  "is_digit c = (48 \<le> (of_char c :: nat) \<and> (of_char c :: nat) \<le> 57)"

definition digits_value :: "string \<Rightarrow> int" where
  "digits_value s = foldl (\<lambda>a c. 10 * a + (of_char c - 48)) 0 s"

definition array_index :: "string \<Rightarrow> nat option" where
  "array_index s =
     (if s \<noteq> [] \<and> list_all is_digit s \<and> (s = ''0'' \<or> hd s \<noteq> CHR ''0'')
         \<and> digits_value s < 4294967295
      then Some (nat (digits_value s)) else None)"

text \<open>
  The own property names of \<^verbatim>\<open>Object.prototype\<close> and \<^verbatim>\<open>Array.prototype\<close> (ECMAScript
  2023), all of them functions. A read of a name that is not an own property finds them.
  \<^verbatim>\<open>__proto__\<close> is an accessor and is treated apart.
\<close>

definition object_prototype_keys :: "string list" where
  "object_prototype_keys =
     [''constructor'', ''hasOwnProperty'', ''isPrototypeOf'', ''propertyIsEnumerable'',
      ''toLocaleString'', ''toString'', ''valueOf'', ''__defineGetter__'', ''__defineSetter__'',
      ''__lookupGetter__'', ''__lookupSetter__'']"

definition array_prototype_keys :: "string list" where
  "array_prototype_keys =
     [''at'', ''concat'', ''copyWithin'', ''entries'', ''every'', ''fill'', ''filter'', ''find'',
      ''findIndex'', ''findLast'', ''findLastIndex'', ''flat'', ''flatMap'', ''forEach'',
      ''includes'', ''indexOf'', ''join'', ''keys'', ''lastIndexOf'', ''map'', ''pop'', ''push'',
      ''reduce'', ''reduceRight'', ''reverse'', ''shift'', ''slice'', ''some'', ''sort'',
      ''splice'', ''toReversed'', ''toSorted'', ''toSpliced'', ''unshift'', ''values'', ''with'']"

definition inherited_of_object :: "string \<Rightarrow> error + jsval" where
  "inherited_of_object name =
     (if name = ''__proto__'' then Inl OutsideModel
      else if name \<in> set object_prototype_keys then Inr JFunction
      else Inr JUndefined)"

definition inherited_of_array :: "string \<Rightarrow> error + jsval" where
  "inherited_of_array name =
     (if name = ''__proto__'' then Inl OutsideModel
      else if name \<in> set array_prototype_keys \<or> name \<in> set object_prototype_keys then Inr JFunction
      else Inr JUndefined)"

text \<open>
  \<^verbatim>\<open>current[key]\<close>. Reading a property of \<^verbatim>\<open>null\<close> or \<^verbatim>\<open>undefined\<close> throws a
  TypeError. A read on a boolean, a number, a string or a function goes through a wrapper
  prototype that the model does not represent.
\<close>

fun get_prop :: "jsval \<Rightarrow> string \<Rightarrow> error + jsval" where
  "get_prop (JObj ps) name =
     (case map_of ps name of Some v \<Rightarrow> Inr v | None \<Rightarrow> inherited_of_object name)"
| "get_prop (JArr xs ps) name =
     (case array_index name of
        Some i \<Rightarrow> Inr (if i < length xs then xs ! i else JUndefined)
      | None \<Rightarrow>
          if name = ''length'' then Inr (JNum (Fin (of_nat (length xs))))
          else (case map_of ps name of Some v \<Rightarrow> Inr v | None \<Rightarrow> inherited_of_array name))"
| "get_prop JUndefined name = Inl TypeError"
| "get_prop JNull name = Inl TypeError"
| "get_prop v name = Inl OutsideModel"

text \<open>
  \<^verbatim>\<open>current[key] = v\<close>, returning the container after the assignment. An index past
  the end of an array extends it, the gap reading as \<^verbatim>\<open>undefined\<close>. The source is an
  ECMAScript module, hence strict: assigning a property of a primitive throws a TypeError.
\<close>

fun set_prop :: "jsval \<Rightarrow> string \<Rightarrow> jsval \<Rightarrow> error + jsval" where
  "set_prop (JObj ps) name v =
     (if name = ''__proto__'' \<and> map_of ps name = None then Inl OutsideModel
      else Inr (JObj (AList.update name v ps)))"
| "set_prop (JArr xs ps) name v =
     (case array_index name of
        Some i \<Rightarrow>
          Inr (JArr (if i < length xs then xs[i := v]
                     else xs @ replicate (i - length xs) JUndefined @ [v]) ps)
      | None \<Rightarrow>
          if name = ''length'' then Inl OutsideModel
          else if name = ''__proto__'' \<and> map_of ps name = None then Inl OutsideModel
          else Inr (JArr xs (AList.update name v ps)))"
| "set_prop JUndefined name v = Inl TypeError"
| "set_prop JNull name v = Inl TypeError"
| "set_prop JFunction name v = Inl OutsideModel"
| "set_prop c name v = (if name = ''__proto__'' then Inl OutsideModel else Inl TypeError)"

text \<open>
  \<^verbatim>\<open>structuredClone\<close>: a deep copy, which in a model of values is the value itself; it
  throws a DataCloneError on a value that holds a function.
\<close>

fun cloneable :: "jsval \<Rightarrow> bool" where
  "cloneable (JArr xs ps) = (list_all cloneable xs \<and> list_all (\<lambda>p. cloneable (snd p)) ps)"
| "cloneable (JObj ps) = list_all (\<lambda>p. cloneable (snd p)) ps"
| "cloneable JFunction = False"
| "cloneable v = True"

definition structuredClone :: "jsval \<Rightarrow> error + jsval" where
  "structuredClone v = (if cloneable v then Inr v else Inl DataCloneError)"

text \<open>
  The own enumerable properties that an object spread \<^verbatim>\<open>{...v}\<close> copies. Spreading
  \<^verbatim>\<open>null\<close>, \<^verbatim>\<open>undefined\<close>, a boolean, a number or a function copies nothing.
\<close>

fun spread_props :: "jsval \<Rightarrow> error + (string \<times> jsval) list" where
  "spread_props (JObj ps) = Inr ps"
| "spread_props (JArr xs ps) = Inl OutsideModel"
| "spread_props (JStr s) = Inl OutsideModel"
| "spread_props v = Inr []"

text \<open>\<^verbatim>\<open>{ ...a, ...b }\<close>: the properties of \<open>a\<close>, then those of \<open>b\<close> over them.\<close>

definition define_all :: "(string \<times> jsval) list \<Rightarrow> (string \<times> jsval) list \<Rightarrow> (string \<times> jsval) list" where
  "define_all src dst = foldl (\<lambda>acc p. AList.update (fst p) (snd p) acc) dst src"

definition spread_merge :: "jsval \<Rightarrow> jsval \<Rightarrow> error + jsval" where
  "spread_merge a b =
     (case spread_props a of Inl e \<Rightarrow> Inl e | Inr ps \<Rightarrow>
        (case spread_props b of Inl e \<Rightarrow> Inl e | Inr qs \<Rightarrow>
           Inr (JObj (define_all qs (define_all ps [])))))"

section \<open>The nested path accessor\<close>

text \<open>
  \<^verbatim>\<open>#setAtPath(data, keys, value)\<close>. The source walks \<open>current\<close> down the tree and
  assigns in place; the model returns the container after the walk, so the container
  reached through \<open>current[key]\<close> is put back where it was read once the rest of the walk
  has changed it. \<open>i\<close> is the loop index. With no key at all the source assigns
  \<^verbatim>\<open>current[undefined]\<close>.
\<close>

fun is_number_key :: "key \<Rightarrow> bool" where
  "is_number_key (KNum n) = True"
| "is_number_key (KStr s) = False"

text \<open>
  One turn of the loop at index \<open>i\<close>: it yields \<open>current\<close> after the turn's assignment,
  if any, and the container \<open>next\<close> the walk moves to, or the error thrown.
\<close>

definition setAtPath_step :: "key list \<Rightarrow> nat \<Rightarrow> jsval \<Rightarrow> error + jsval \<times> jsval" where
  "setAtPath_step keys i current =
     (let key = keys ! i; nextKey = keys ! (i + 1) in
      case get_prop current (prop_name key) of Inl e \<Rightarrow> Inl e | Inr existing \<Rightarrow>
        (case (if nullish existing then
                 (if is_number_key nextKey then Inl (ArrayAutoCreateRefused (take (i + 1) keys))
                  else set_prop current (prop_name key) (JObj []))
               else Inr current) of Inl e \<Rightarrow> Inl e | Inr current1 \<Rightarrow>
           (case get_prop current1 (prop_name key) of Inl e \<Rightarrow> Inl e | Inr next \<Rightarrow>
              if nullish next \<or> typeof next \<noteq> ''object''
              then Inl (TraversalFailure (take (i + 1) keys))
              else Inr (current1, next))))"

function setAtPath_from :: "key list \<Rightarrow> jsval \<Rightarrow> nat \<Rightarrow> jsval \<Rightarrow> error + jsval" where
  "setAtPath_from keys value i current =
     (if i + 1 < length keys then
        (case setAtPath_step keys i current of
           Inl e \<Rightarrow> Inl e
         | Inr (current1, next) \<Rightarrow>
             (case setAtPath_from keys value (i + 1) next of
                Inl e \<Rightarrow> Inl e
              | Inr next' \<Rightarrow> set_prop current1 (prop_name (keys ! i)) next'))
      else if keys = [] then set_prop current ''undefined'' value
      else set_prop current (prop_name (keys ! (length keys - 1))) value)"
  by pat_completeness auto
termination
  by (relation "measure (\<lambda>(keys, value, i, current). length keys - i)") auto

declare setAtPath_from.simps [simp del]

definition setAtPath :: "jsval \<Rightarrow> key list \<Rightarrow> jsval \<Rightarrow> error + jsval" where
  "setAtPath data keys value = setAtPath_from keys value 0 data"

text \<open>The loop of \<^verbatim>\<open>getPath\<close>.\<close>

fun getPath_walk :: "jsval \<Rightarrow> key list \<Rightarrow> error + jsval" where
  "getPath_walk current [] = Inr current"
| "getPath_walk current (key # keys) =
     (if nullish current \<or> typeof current \<noteq> ''object'' then Inr JUndefined
      else (case get_prop current (prop_name key) of Inl e \<Rightarrow> Inl e
            | Inr v \<Rightarrow> getPath_walk v keys))"

section \<open>The runtime and the file system\<close>

text \<open>
  \<^verbatim>\<open>JSON.stringify(data, null, 2)\<close>, \<^verbatim>\<open>JSON.parse\<close> and \<^verbatim>\<open>path.dirname\<close> belong to the
  JavaScript runtime, not to the store; they are parameters of the model.
  \<open>json_stringify\<close> gives the text handed to \<^verbatim>\<open>writeFile\<close>, or the error raised on the
  way (a value \<^verbatim>\<open>JSON.stringify\<close> rejects, or no text at all for
  \<^verbatim>\<open>undefined\<close>); \<open>json_parse\<close> gives the parsed value or the syntax error.
\<close>

record runtime =
  json_stringify :: "jsval \<Rightarrow> error + string"
  json_parse :: "string \<Rightarrow> error + jsval"
  dirname :: "string \<Rightarrow> string"

text \<open>
  The files: a map from paths to contents. Whether a call into \<^verbatim>\<open>node:fs\<close> fails is
  decided by the operating system; one \<open>io\<close> record holds, for one store operation,
  the outcome of each call it may make (\<open>None\<close>: no fault injected) and the token
  \<^verbatim>\<open>randomUUID()\<close> returns. A failed \<^verbatim>\<open>writeFile\<close> may leave part of the text behind.
\<close>

type_synonym fs = "string \<Rightarrow> string option"

record io =
  uuid :: string
  access_err :: "string option"
  read_err :: "string option"
  open_err :: "string option"
  write_err :: "(string \<times> string) option"
  sync_err :: "string option"
  close_err :: "string option"
  rename_err :: "string option"
  unlink_err :: "string option"

definition fs_access :: "io \<Rightarrow> string \<Rightarrow> error + unit" where
  "fs_access io dir = (case access_err io of Some c \<Rightarrow> Inl (SystemError c) | None \<Rightarrow> Inr ())"

text \<open>\<^verbatim>\<open>readFile\<close>: a missing file is the rejection with code \<^verbatim>\<open>ENOENT\<close>.\<close>

definition fs_readFile :: "io \<Rightarrow> fs \<Rightarrow> string \<Rightarrow> error + string" where
  "fs_readFile io files path =
     (case read_err io of
        Some c \<Rightarrow> Inl (SystemError c)
      | None \<Rightarrow> (case files path of None \<Rightarrow> Inl (SystemError ''ENOENT'') | Some content \<Rightarrow> Inr content))"

text \<open>\<^verbatim>\<open>open(path, "w")\<close> creates the file, or empties it.\<close>

definition fs_open_w :: "io \<Rightarrow> fs \<Rightarrow> string \<Rightarrow> error + fs" where
  "fs_open_w io files path =
     (case open_err io of Some c \<Rightarrow> Inl (SystemError c) | None \<Rightarrow> Inr (files(path \<mapsto> [])))"

definition fs_writeFile :: "io \<Rightarrow> fs \<Rightarrow> string \<Rightarrow> string \<Rightarrow> (error + unit) \<times> fs" where
  "fs_writeFile io files path text =
     (case write_err io of
        Some (c, written) \<Rightarrow> (Inl (SystemError c), files(path \<mapsto> written))
      | None \<Rightarrow> (Inr (), files(path \<mapsto> text)))"

definition fs_sync :: "io \<Rightarrow> error + unit" where
  "fs_sync io = (case sync_err io of Some c \<Rightarrow> Inl (SystemError c) | None \<Rightarrow> Inr ())"

definition fs_close :: "io \<Rightarrow> error + unit" where
  "fs_close io = (case close_err io of Some c \<Rightarrow> Inl (SystemError c) | None \<Rightarrow> Inr ())"

text \<open>\<^verbatim>\<open>rename\<close> replaces the target in one step, or fails and changes nothing.\<close>

definition fs_rename :: "io \<Rightarrow> fs \<Rightarrow> string \<Rightarrow> string \<Rightarrow> (error + unit) \<times> fs" where
  "fs_rename io files src dst =
     (case rename_err io of
        Some c \<Rightarrow> (Inl (SystemError c), files)
      | None \<Rightarrow>
          (case files src of
             None \<Rightarrow> (Inl (SystemError ''ENOENT''), files)
           | Some content \<Rightarrow> (Inr (), (files(src := None))(dst \<mapsto> content))))"

definition fs_unlink :: "io \<Rightarrow> fs \<Rightarrow> string \<Rightarrow> (error + unit) \<times> fs" where
  "fs_unlink io files path =
     (case unlink_err io of
        Some c \<Rightarrow> (Inl (SystemError c), files)
      | None \<Rightarrow>
          (case files path of
             None \<Rightarrow> (Inl (SystemError ''ENOENT''), files)
           | Some content \<Rightarrow> (Inr (), files(path := None))))"

section \<open>The atomic writer\<close>

text \<open>
  \<^verbatim>\<open>#writeAtomic(data)\<close> of the later class, in the three layers of the source: the
  body of the inner \<^verbatim>\<open>try\<close> (serialise, write, sync), the outer \<^verbatim>\<open>try\<close> (open, inner
  \<^verbatim>\<open>try\<close> with its \<^verbatim>\<open>finally\<close> closing the handle, rename), and the \<^verbatim>\<open>catch\<close> that
  unlinks the temporary file, ignores what the unlink does, and throws the error again.
  An error thrown by the \<^verbatim>\<open>finally\<close> block replaces the one in flight.
\<close>

definition tmpPath_of :: "string \<Rightarrow> io \<Rightarrow> string" where
  "tmpPath_of path io = path @ ''.'' @ uuid io @ ''.tmp''"

definition writeAtomic_handle :: "runtime \<Rightarrow> io \<Rightarrow> string \<Rightarrow> jsval \<Rightarrow> fs \<Rightarrow> (error + unit) \<times> fs" where
  "writeAtomic_handle rt io tmpPath data files =
     (case json_stringify rt data of
        Inl e \<Rightarrow> (Inl e, files)
      | Inr text \<Rightarrow>
          (case fs_writeFile io files tmpPath text of
             (Inl e, files1) \<Rightarrow> (Inl e, files1)
           | (Inr u, files1) \<Rightarrow> (fs_sync io, files1)))"

definition writeAtomic_try :: "runtime \<Rightarrow> io \<Rightarrow> string \<Rightarrow> string \<Rightarrow> jsval \<Rightarrow> fs \<Rightarrow> (error + unit) \<times> fs" where
  "writeAtomic_try rt io path tmpPath data files =
     (case fs_open_w io files tmpPath of
        Inl e \<Rightarrow> (Inl e, files)
      | Inr files1 \<Rightarrow>
          (case writeAtomic_handle rt io tmpPath data files1 of
             (r, files2) \<Rightarrow>
               (case (case fs_close io of Inl e \<Rightarrow> Inl e | Inr u \<Rightarrow> r) of
                  Inl e \<Rightarrow> (Inl e, files2)
                | Inr u \<Rightarrow> fs_rename io files2 tmpPath path)))"

definition writeAtomic :: "runtime \<Rightarrow> io \<Rightarrow> string \<Rightarrow> jsval \<Rightarrow> fs \<Rightarrow> (error + unit) \<times> fs" where
  "writeAtomic rt io path data files =
     (let tmpPath = tmpPath_of path io in
      case writeAtomic_try rt io path tmpPath data files of
        (Inl err, files1) \<Rightarrow> (Inl err, snd (fs_unlink io files1 tmpPath))
      | (Inr u, files1) \<Rightarrow> (Inr (), files1))"

section \<open>The document store\<close>

text \<open>
  The private fields of \<^verbatim>\<open>JSONStore\<close>. The mutex is modelled on its own below; it makes
  the bodies of the queued operations run one after the other, so a queued operation
  is a transition from the store and the files when its body starts to those when it
  ends. Only the unqueued calls can reach the store in between; \<^verbatim>\<open>updateAndSave\<close> below
  takes them as arguments.
  A default factory returns a document or throws.
\<close>

record store =
  filePath :: string
  data :: jsval
  initialized :: bool
  dirty :: bool
  defaultFactory :: "unit \<Rightarrow> error + jsval"

text \<open>The constructor; without a factory the default document is \<^verbatim>\<open>{}\<close>.\<close>

definition new_store :: "string \<Rightarrow> (unit \<Rightarrow> error + jsval) option \<Rightarrow> error + store" where
  "new_store path factory_opt =
     (let factory = (case factory_opt of Some f \<Rightarrow> f | None \<Rightarrow> (\<lambda>u. Inr (JObj []))) in
      case factory () of
        Inl e \<Rightarrow> Inl e
      | Inr d \<Rightarrow> Inr \<lparr>filePath = path, data = d, initialized = False, dirty = False,
                      defaultFactory = factory\<rparr>)"

text \<open>
  The argument of \<^verbatim>\<open>update\<close> and \<^verbatim>\<open>updateAndSave\<close>: a function (\<^verbatim>\<open>typeof updater ===
  "function"\<close>), which receives the clone, changes it in place and may throw, or any
  other value, which is spread over the document.
\<close>

datatype updater = Partial jsval | Mutator "jsval \<Rightarrow> error + jsval"

text \<open>\<^verbatim>\<open>#readOrCreateDefault\<close> and \<^verbatim>\<open>load\<close>.\<close>

definition readOrCreateDefault :: "runtime \<Rightarrow> io \<Rightarrow> store \<Rightarrow> fs \<Rightarrow> (error + jsval) \<times> fs" where
  "readOrCreateDefault rt io s files =
     (case fs_readFile io files (filePath s) of
        Inl err \<Rightarrow>
          if err_code err \<noteq> Some ''ENOENT'' then (Inl err, files)
          else (case defaultFactory s () of
                  Inl e \<Rightarrow> (Inl e, files)
                | Inr defaultData \<Rightarrow>
                    (case writeAtomic rt io (filePath s) defaultData files of
                       (Inl e, files1) \<Rightarrow> (Inl e, files1)
                     | (Inr u, files1) \<Rightarrow> (Inr defaultData, files1)))
      | Inr content \<Rightarrow>
          (case json_parse rt content of
             Inl parseError \<Rightarrow> (Inl (ParseFailure (filePath s) parseError), files)
           | Inr v \<Rightarrow> (Inr v, files)))"

definition load :: "runtime \<Rightarrow> io \<Rightarrow> store \<Rightarrow> fs \<Rightarrow> (error + unit) \<times> store \<times> fs" where
  "load rt io s files =
     (let dir = dirname rt (filePath s) in
      case fs_access io dir of
        Inl e \<Rightarrow> (Inl (DirectoryMissing dir), s, files)
      | Inr u \<Rightarrow>
          (case readOrCreateDefault rt io s files of
             (Inl e, files1) \<Rightarrow> (Inl e, s, files1)
           | (Inr loadedData, files1) \<Rightarrow>
               (Inr (), s\<lparr>data := loadedData, initialized := True, dirty := False\<rparr>, files1)))"

definition reload :: "runtime \<Rightarrow> io \<Rightarrow> store \<Rightarrow> fs \<Rightarrow> (error + unit) \<times> store \<times> fs" where
  "reload rt io s files =
     (if \<not> initialized s then (Inl NotInitialized, s, files)
      else (case fs_readFile io files (filePath s) of
              Inl err \<Rightarrow>
                if err_code err = Some ''ENOENT'' then (Inl (FileMissing (filePath s) err), s, files)
                else (Inl err, s, files)
            | Inr content \<Rightarrow>
                (case json_parse rt content of
                   Inl parseError \<Rightarrow> (Inl (ParseFailure (filePath s) parseError), s, files)
                 | Inr parsed \<Rightarrow> (Inr (), s\<lparr>data := parsed, dirty := False\<rparr>, files))))"

definition save :: "runtime \<Rightarrow> io \<Rightarrow> store \<Rightarrow> fs \<Rightarrow> (error + unit) \<times> store \<times> fs" where
  "save rt io s files =
     (if \<not> initialized s then (Inl NotInitialized, s, files)
      else (case writeAtomic rt io (filePath s) (data s) files of
              (Inl e, files1) \<Rightarrow> (Inl e, s, files1)
            | (Inr u, files1) \<Rightarrow> (Inr (), s\<lparr>dirty := False\<rparr>, files1)))"

text \<open>
  The branch on the updater that \<^verbatim>\<open>update\<close> and \<^verbatim>\<open>updateAndSave\<close> share: it yields the
  value assigned to \<^verbatim>\<open>this.#data\<close>, or the error thrown before the assignment.
\<close>

definition apply_updater :: "jsval \<Rightarrow> updater \<Rightarrow> error + jsval" where
  "apply_updater current u =
     (case u of
        Mutator f \<Rightarrow>
          (case structuredClone current of
             Inl e \<Rightarrow> Inl e
           | Inr cloned \<Rightarrow> f cloned)
      | Partial p \<Rightarrow> spread_merge current p)"

definition update :: "store \<Rightarrow> updater \<Rightarrow> (error + unit) \<times> store" where
  "update s u =
     (if \<not> initialized s then (Inl NotInitialized, s)
      else (case apply_updater (data s) u of
              Inl e \<Rightarrow> (Inl e, s)
            | Inr d \<Rightarrow> (Inr (), s\<lparr>data := d, dirty := True\<rparr>)))"

text \<open>The path operations of the store that do not write the file.\<close>

definition getPath :: "store \<Rightarrow> jsval list \<Rightarrow> error + jsval" where
  "getPath s keys =
     (if \<not> initialized s then Inl NotInitialized
      else (case validateKeys keys of
              Inl e \<Rightarrow> Inl e
            | Inr validKeys \<Rightarrow> getPath_walk (data s) validKeys))"

definition hasPath :: "store \<Rightarrow> jsval list \<Rightarrow> error + bool" where
  "hasPath s keys = (case getPath s keys of Inl e \<Rightarrow> Inl e | Inr v \<Rightarrow> Inr (v \<noteq> JUndefined))"

definition setPath :: "store \<Rightarrow> jsval list \<Rightarrow> jsval \<Rightarrow> (error + unit) \<times> store" where
  "setPath s keys value =
     (case validateKeys keys of
        Inl e \<Rightarrow> (Inl e, s)
      | Inr validKeys \<Rightarrow>
          if validKeys = [] then (Inl EmptyPath, s)
          else update s (Mutator (\<lambda>d. setAtPath d validKeys value)))"

text \<open>
  \<^verbatim>\<open>_setData(data)\<close>, the protected hook that replaces the document and marks it dirty.
\<close>

definition setData :: "store \<Rightarrow> jsval \<Rightarrow> (error + unit) \<times> store" where
  "setData s d =
     (if \<not> initialized s then (Inl NotInitialized, s)
      else (Inr (), s\<lparr>data := d, dirty := True\<rparr>))"

text \<open>
  \<^verbatim>\<open>update\<close>, \<^verbatim>\<open>setPath\<close> and \<^verbatim>\<open>_setData\<close> are synchronous and do not take the mutex. So
  they can run on the store while a queued operation is in progress: called by a mutator
  from inside it, or by other code while the operation is suspended at an \<^verbatim>\<open>await\<close>.
  \<open>run_unqueued\<close> runs a list of such calls; what each returns or throws goes to its own
  caller.
\<close>

datatype unqueued = CallUpdate updater | CallSetPath "jsval list" jsval | CallSetData jsval

fun run_unqueued :: "unqueued list \<Rightarrow> store \<Rightarrow> store" where
  "run_unqueued [] s = s"
| "run_unqueued (CallUpdate u # cs) s = run_unqueued cs (snd (update s u))"
| "run_unqueued (CallSetPath keys v # cs) s = run_unqueued cs (snd (setPath s keys v))"
| "run_unqueued (CallSetData d # cs) s = run_unqueued cs (snd (setData s d))"

text \<open>
  \<^verbatim>\<open>updateAndSave\<close>. The backup is a clone taken before the \<^verbatim>\<open>try\<close>; the \<^verbatim>\<open>catch\<close> puts
  it back into \<^verbatim>\<open>this.#data\<close> and touches nothing else. The body has two places where
  unqueued calls can reach the store: \<open>in_updater\<close> are the calls a mutator makes
  before it returns or throws (a partial runs no code of the caller), \<open>in_write\<close> those
  that run while \<^verbatim>\<open>await this.#writeAtomic(this.#data)\<close> is pending. The write was handed
  the document before it suspended, so it serialises that document. \<open>after_updater\<close> is
  the store when the branch on the updater is left.
\<close>

definition after_updater :: "store \<Rightarrow> updater \<Rightarrow> unqueued list \<Rightarrow> store" where
  "after_updater s u in_updater =
     (case u of
        Mutator f \<Rightarrow> (if cloneable (data s) then run_unqueued in_updater s else s)
      | Partial p \<Rightarrow> s)"

definition updateAndSave_try :: "runtime \<Rightarrow> io \<Rightarrow> store \<Rightarrow> updater \<Rightarrow> unqueued list \<Rightarrow> unqueued list \<Rightarrow> fs \<Rightarrow> (error + unit) \<times> store \<times> fs" where
  "updateAndSave_try rt io s u in_updater in_write files =
     (case apply_updater (data s) u of
        Inl e \<Rightarrow> (Inl e, after_updater s u in_updater, files)
      | Inr d \<Rightarrow>
          (let s1 = (after_updater s u in_updater)\<lparr>data := d\<rparr> in
           case writeAtomic rt io (filePath s1) (data s1) files of
             (w, files1) \<Rightarrow>
               (let s2 = run_unqueued in_write s1 in
                case w of
                  Inl e \<Rightarrow> (Inl e, s2, files1)
                | Inr u \<Rightarrow> (Inr (), s2\<lparr>dirty := False\<rparr>, files1))))"

definition updateAndSave_interleaved :: "runtime \<Rightarrow> io \<Rightarrow> store \<Rightarrow> updater \<Rightarrow> unqueued list \<Rightarrow> unqueued list \<Rightarrow> fs \<Rightarrow> (error + unit) \<times> store \<times> fs" where
  "updateAndSave_interleaved rt io s u in_updater in_write files =
     (if \<not> initialized s then (Inl NotInitialized, s, files)
      else (case structuredClone (data s) of
              Inl e \<Rightarrow> (Inl e, s, files)
            | Inr backup \<Rightarrow>
                (case updateAndSave_try rt io s u in_updater in_write files of
                   (Inl err, s1, files1) \<Rightarrow> (Inl err, s1\<lparr>data := backup\<rparr>, files1)
                 | (Inr r, s1, files1) \<Rightarrow> (Inr (), s1, files1))))"

text \<open>
  The call during which no unqueued call reaches the store: one transition from the
  store and the files before it to those after it.
\<close>

definition updateAndSave :: "runtime \<Rightarrow> io \<Rightarrow> store \<Rightarrow> updater \<Rightarrow> fs \<Rightarrow> (error + unit) \<times> store \<times> fs" where
  "updateAndSave rt io s u files = updateAndSave_interleaved rt io s u [] [] files"

text \<open>
  \<^verbatim>\<open>setPathAndSave\<close> hands \<^verbatim>\<open>updateAndSave\<close> a mutator that calls nothing on the store. A call
  that fails in the validation or in the mutator ends before the write starts, so no
  unqueued call can run during it; for the call that reaches the write, this is the case
  where none runs while the write is pending.
\<close>

definition setPathAndSave :: "runtime \<Rightarrow> io \<Rightarrow> store \<Rightarrow> jsval list \<Rightarrow> jsval \<Rightarrow> fs \<Rightarrow> (error + unit) \<times> store \<times> fs" where
  "setPathAndSave rt io s keys value files =
     (case validateKeys keys of
        Inl e \<Rightarrow> (Inl e, s, files)
      | Inr validKeys \<Rightarrow>
          if validKeys = [] then (Inl EmptyPath, s, files)
          else updateAndSave rt io s (Mutator (\<lambda>d. setAtPath d validKeys value)) files)"

section \<open>The earlier class\<close>

text \<open>
  The source file holds an earlier version of \<^verbatim>\<open>JSONStore\<close> before the later one. Its
  operations that differ in text are modelled here, with the suffix \<open>_v1\<close>:
  \<^verbatim>\<open>#writeAtomic()\<close> takes no argument and serialises \<^verbatim>\<open>this.#data\<close>; \<^verbatim>\<open>load\<close> puts the
  default document into \<^verbatim>\<open>this.#data\<close> while it writes it and puts the old document back
  when the write fails; \<^verbatim>\<open>reload\<close> lets the rejection of \<^verbatim>\<open>readFile\<close> through as it is;
  the backup of \<^verbatim>\<open>updateAndSave\<close> is the document itself, not a clone.
\<close>

definition writeAtomic_v1 :: "runtime \<Rightarrow> io \<Rightarrow> store \<Rightarrow> fs \<Rightarrow> (error + unit) \<times> fs" where
  "writeAtomic_v1 rt io s files =
     (let tmpPath = tmpPath_of (filePath s) io in
      case writeAtomic_try rt io (filePath s) tmpPath (data s) files of
        (Inl err, files1) \<Rightarrow> (Inl err, snd (fs_unlink io files1 tmpPath))
      | (Inr u, files1) \<Rightarrow> (Inr (), files1))"

definition load_v1_read :: "runtime \<Rightarrow> io \<Rightarrow> store \<Rightarrow> fs \<Rightarrow> error + jsval" where
  "load_v1_read rt io s files =
     (case fs_readFile io files (filePath s) of
        Inl e \<Rightarrow> Inl e
      | Inr content \<Rightarrow>
          (case json_parse rt content of
             Inl parseError \<Rightarrow> Inl (ParseFailure (filePath s) parseError)
           | Inr v \<Rightarrow> Inr v))"

definition load_v1 :: "runtime \<Rightarrow> io \<Rightarrow> store \<Rightarrow> fs \<Rightarrow> (error + unit) \<times> store \<times> fs" where
  "load_v1 rt io s files =
     (let dir = dirname rt (filePath s) in
      case fs_access io dir of
        Inl e \<Rightarrow> (Inl (DirectoryMissing dir), s, files)
      | Inr u \<Rightarrow>
          (case (case load_v1_read rt io s files of
                   Inr v \<Rightarrow> (Inr v, s, files)
                 | Inl err \<Rightarrow>
                     if err_code err = Some ''ENOENT'' then
                       (case defaultFactory s () of
                          Inl e \<Rightarrow> (Inl e, s, files)
                        | Inr loadedData \<Rightarrow>
                            (let originalData = data s; s1 = s\<lparr>data := loadedData\<rparr> in
                             case writeAtomic_v1 rt io s1 files of
                               (Inl writeErr, files1) \<Rightarrow> (Inl writeErr, s1\<lparr>data := originalData\<rparr>, files1)
                             | (Inr u, files1) \<Rightarrow> (Inr loadedData, s1, files1)))
                     else (Inl err, s, files)) of
             (Inl e, s2, files2) \<Rightarrow> (Inl e, s2, files2)
           | (Inr loadedData, s2, files2) \<Rightarrow>
               (Inr (), s2\<lparr>data := loadedData, initialized := True, dirty := False\<rparr>, files2)))"

definition reload_v1 :: "runtime \<Rightarrow> io \<Rightarrow> store \<Rightarrow> fs \<Rightarrow> (error + unit) \<times> store \<times> fs" where
  "reload_v1 rt io s files =
     (if \<not> initialized s then (Inl NotInitialized, s, files)
      else (case fs_readFile io files (filePath s) of
              Inl err \<Rightarrow> (Inl err, s, files)
            | Inr content \<Rightarrow>
                (case json_parse rt content of
                   Inl parseError \<Rightarrow> (Inl (ParseFailure (filePath s) parseError), s, files)
                 | Inr parsed \<Rightarrow> (Inr (), s\<lparr>data := parsed, dirty := False\<rparr>, files))))"

definition save_v1 :: "runtime \<Rightarrow> io \<Rightarrow> store \<Rightarrow> fs \<Rightarrow> (error + unit) \<times> store \<times> fs" where
  "save_v1 rt io s files =
     (if \<not> initialized s then (Inl NotInitialized, s, files)
      else (case writeAtomic_v1 rt io s files of
              (Inl e, files1) \<Rightarrow> (Inl e, s, files1)
            | (Inr u, files1) \<Rightarrow> (Inr (), s\<lparr>dirty := False\<rparr>, files1)))"

definition update_v1 :: "store \<Rightarrow> updater \<Rightarrow> (error + unit) \<times> store" where
  "update_v1 s u =
     (if \<not> initialized s then (Inl NotInitialized, s)
      else (case apply_updater (data s) u of
              Inl e \<Rightarrow> (Inl e, s)
            | Inr d \<Rightarrow> (Inr (), s\<lparr>data := d, dirty := True\<rparr>)))"

definition updateAndSave_v1_try :: "runtime \<Rightarrow> io \<Rightarrow> store \<Rightarrow> updater \<Rightarrow> fs \<Rightarrow> (error + unit) \<times> store \<times> fs" where
  "updateAndSave_v1_try rt io s u files =
     (case apply_updater (data s) u of
        Inl e \<Rightarrow> (Inl e, s, files)
      | Inr d \<Rightarrow>
          (let s1 = s\<lparr>data := d\<rparr> in
           case writeAtomic_v1 rt io s1 files of
             (Inl e, files1) \<Rightarrow> (Inl e, s1, files1)
           | (Inr u, files1) \<Rightarrow> (Inr (), s1\<lparr>dirty := False\<rparr>, files1)))"

definition updateAndSave_v1 :: "runtime \<Rightarrow> io \<Rightarrow> store \<Rightarrow> updater \<Rightarrow> fs \<Rightarrow> (error + unit) \<times> store \<times> fs" where
  "updateAndSave_v1 rt io s u files =
     (if \<not> initialized s then (Inl NotInitialized, s, files)
      else (let backup = data s in
            case updateAndSave_v1_try rt io s u files of
              (Inl err, s1, files1) \<Rightarrow> (Inl err, s1\<lparr>data := backup\<rparr>, files1)
            | (Inr r, s1, files1) \<Rightarrow> (Inr (), s1, files1)))"

section \<open>The serialized-access queue\<close>

text \<open>
  \<^verbatim>\<open>AsyncMutex\<close>. JavaScript runs one task at a time and a task runs until it awaits, so
  the mutex is a transition system whose steps are the stretches of \<^verbatim>\<open>runExclusive\<close>
  between awaits; the scheduler picks the order of the steps. Promises are numbered;
  \<open>resolved\<close> lists the promises that are settled. Promise \<open>0\<close> is the
  \<^verbatim>\<open>Promise.resolve()\<close> that \<^verbatim>\<open>#queue\<close> starts with.

  A call of \<^verbatim>\<open>runExclusive(fn)\<close> goes through these steps:
  \<^item> \<open>Call\<close>: up to \<^verbatim>\<open>await prev\<close>. It makes the promise \<open>next\<close>, reads \<^verbatim>\<open>#queue\<close> into
    \<open>prev\<close> and stores \<open>next\<close> in \<^verbatim>\<open>#queue\<close>. The call is then \<open>Waiting\<close>.
  \<^item> \<open>Resume i\<close>: the continuation of \<^verbatim>\<open>await prev\<close> of the \<open>i\<close>-th call, which can only
    run once \<open>prev\<close> is resolved. It invokes \<^verbatim>\<open>fn()\<close>: the body begins and the call is
    \<open>Running\<close>.
  \<^item> \<open>Suspend i\<close>: the body of the \<open>i\<close>-th call awaits something and comes back, any
    number of times, while other steps may run in between.
  \<^item> \<open>Finish i\<close>: the promise of \<^verbatim>\<open>fn()\<close> settles, by a result or by an error, and the
    \<^verbatim>\<open>finally\<close> block calls \<^verbatim>\<open>release()\<close>, which resolves \<open>next\<close>. The call is \<open>Done\<close>.

  A step that is not enabled yields \<open>None\<close>. The \<open>trace\<close> records when each body
  begins and ends.
\<close>

datatype phase = Waiting | Running | Done

datatype event = Call | Resume nat | Suspend nat | Finish nat

datatype mark = Begin nat | End nat

record async_mutex =
  queue :: nat
  fresh :: nat
  resolved :: "nat list"
  calls :: "(nat \<times> nat \<times> phase) list"
  trace :: "mark list"

definition new_mutex :: async_mutex where
  "new_mutex = \<lparr>queue = 0, fresh = 1, resolved = [0], calls = [], trace = []\<rparr>"

definition phase_of :: "async_mutex \<Rightarrow> nat \<Rightarrow> phase" where
  "phase_of m i = snd (snd (calls m ! i))"

definition prev_of :: "async_mutex \<Rightarrow> nat \<Rightarrow> nat" where
  "prev_of m i = fst (calls m ! i)"

definition next_of :: "async_mutex \<Rightarrow> nat \<Rightarrow> nat" where
  "next_of m i = fst (snd (calls m ! i))"

definition set_phase :: "async_mutex \<Rightarrow> nat \<Rightarrow> phase \<Rightarrow> (nat \<times> nat \<times> phase) list" where
  "set_phase m i ph = (calls m)[i := (prev_of m i, next_of m i, ph)]"

fun step :: "event \<Rightarrow> async_mutex \<Rightarrow> async_mutex option" where
  "step Call m =
     Some (m\<lparr>queue := fresh m, fresh := Suc (fresh m),
              calls := calls m @ [(queue m, fresh m, Waiting)]\<rparr>)"
| "step (Resume i) m =
     (if i < length (calls m) \<and> phase_of m i = Waiting \<and> prev_of m i \<in> set (resolved m)
      then Some (m\<lparr>calls := set_phase m i Running, trace := trace m @ [Begin i]\<rparr>)
      else None)"
| "step (Suspend i) m =
     (if i < length (calls m) \<and> phase_of m i = Running then Some m else None)"
| "step (Finish i) m =
     (if i < length (calls m) \<and> phase_of m i = Running
      then Some (m\<lparr>resolved := next_of m i # resolved m, calls := set_phase m i Done,
                    trace := trace m @ [End i]\<rparr>)
      else None)"

text \<open>A schedule is a list of steps; it runs as long as each step is enabled.\<close>

fun run :: "event list \<Rightarrow> async_mutex \<Rightarrow> async_mutex option" where
  "run [] m = Some m"
| "run (e # es) m = (case step e m of None \<Rightarrow> None | Some m' \<Rightarrow> run es m')"

text \<open>
  The trace in which the first \<open>k\<close> units of work, in the order of their calls, have
  each begun and ended, one after the other.
\<close>

fun fifo_trace :: "nat \<Rightarrow> mark list" where
  "fifo_trace 0 = []"
| "fifo_trace (Suc k) = fifo_trace k @ [Begin k, End k]"

section \<open>Predicates of the statements\<close>

text \<open>
  The keys \<^verbatim>\<open>#validateKeys\<close> lets through, read off its two tests: a string (of any
  length), or a number that \<^verbatim>\<open>Number.isFinite\<close> accepts.
\<close>

fun key_accepted :: "jsval \<Rightarrow> bool" where
  "key_accepted (JStr s) = True"
| "key_accepted (JNum (Fin n)) = True"
| "key_accepted k = False"

text \<open>
  The keys the specification calls valid: a non-empty string, or a finite numeric index.
\<close>

fun spec_valid_key :: "jsval \<Rightarrow> bool" where
  "spec_valid_key (JStr s) = (s \<noteq> [])"
| "spec_valid_key (JNum (Fin n)) = True"
| "spec_valid_key k = False"

text \<open>
  The error \<^verbatim>\<open>#validateKeys\<close> throws for the key \<open>k\<close> at index \<open>i\<close>: for a number that
  is not finite the message holds the number; otherwise it holds \<^verbatim>\<open>typeof k\<close>.
\<close>

fun invalid_key :: "nat \<Rightarrow> jsval \<Rightarrow> error" where
  "invalid_key i (JNum x) = InvalidKeyNotFinite i x"
| "invalid_key i k = InvalidKeyType i (typeof k)"

text \<open>
  The value of \<open>current\<close> at the start of turn \<open>i\<close> of the loop of \<^verbatim>\<open>#setAtPath\<close>, when
  the walk over the keys before \<open>i\<close> threw nothing.
\<close>

fun reached :: "key list \<Rightarrow> nat \<Rightarrow> jsval \<Rightarrow> error + jsval" where
  "reached keys 0 root = Inr root"
| "reached keys (Suc i) root =
     (case reached keys i root of
        Inl e \<Rightarrow> Inl e
      | Inr current \<Rightarrow>
          (case setAtPath_step keys i current of Inl e \<Rightarrow> Inl e | Inr (current1, next) \<Rightarrow> Inr next))"

text \<open>A mapping or a sequence.\<close>

fun is_container :: "jsval \<Rightarrow> bool" where
  "is_container (JObj ps) = True"
| "is_container (JArr xs ps) = True"
| "is_container v = False"

text \<open>
  The invariant of the mutex: the first \<open>k\<close> calls are done, the later ones wait, call
  \<open>k\<close> itself waits or runs; promise \<open>i + 1\<close> belongs to call \<open>i\<close>, and exactly the
  promises up to \<open>k\<close> are resolved.
\<close>

definition mutex_inv :: "async_mutex \<Rightarrow> nat \<Rightarrow> bool" where
  "mutex_inv m k \<longleftrightarrow>
     k \<le> length (calls m)
   \<and> queue m = length (calls m) \<and> fresh m = Suc (length (calls m))
   \<and> (\<forall>i<length (calls m). prev_of m i = i \<and> next_of m i = Suc i)
   \<and> (\<forall>i<k. phase_of m i = Done)
   \<and> (\<forall>i. k < i \<and> i < length (calls m) \<longrightarrow> phase_of m i = Waiting)
   \<and> (k < length (calls m) \<longrightarrow> phase_of m k \<noteq> Done)
   \<and> set (resolved m) = {0..k}
   \<and> trace m = fifo_trace k @ (if k < length (calls m) \<and> phase_of m k = Running then [Begin k] else [])"

text \<open>A store and a runtime for the worked examples.\<close>

definition sample_store :: store where
  "sample_store = \<lparr>filePath = ''data/ids.json'', data = JObj [], initialized = True, dirty = False,
     defaultFactory = (\<lambda>u. Inr (JObj []))\<rparr>"

text \<open>
  The error, if any, that leaves the \<^verbatim>\<open>try\<close> block of \<^verbatim>\<open>#writeAtomic\<close> once the
  temporary file is open, read off the control flow: a failing \<^verbatim>\<open>close\<close> in the
  \<^verbatim>\<open>finally\<close> block wins; otherwise the first failure among serialising, writing and
  syncing; otherwise the failure of the rename. The outcome of the unlink plays no part.
\<close>

definition step_error :: "runtime \<Rightarrow> io \<Rightarrow> jsval \<Rightarrow> error option" where
  "step_error rt io d =
     (case close_err io of
        Some c \<Rightarrow> Some (SystemError c)
      | None \<Rightarrow>
         (case json_stringify rt d of
            Inl e \<Rightarrow> Some e
          | Inr text \<Rightarrow>
             (case write_err io of
                Some (c, written) \<Rightarrow> Some (SystemError c)
              | None \<Rightarrow>
                 (case sync_err io of
                    Some c \<Rightarrow> Some (SystemError c)
                  | None \<Rightarrow> map_option SystemError (rename_err io)))))"

text \<open>An operation's outcome and the state it leaves, compared up to the error value.\<close>

definition same_outcome :: "(error + unit) \<times> 'st \<Rightarrow> (error + unit) \<times> 'st \<Rightarrow> bool" where
  "same_outcome a b = (isl (fst a) = isl (fst b) \<and> snd a = snd b)"

text \<open>
  A runtime for the worked examples: the serialiser and the parser on the few values and
  texts the examples use, as Node.js computes them, and a \<^verbatim>\<open>dirname\<close> for relative paths
  with a directory part.
\<close>

definition newline :: string where
  "newline = [CHR 0x0A]"

fun sample_stringify :: "jsval \<Rightarrow> error + string" where
  "sample_stringify (JObj []) = Inr ''{}''"
| "sample_stringify (JObj [(k, JFunction)]) = Inr ''{}''"
| "sample_stringify (JObj [(k, JNum (Fin n))]) =
     Inr (''{'' @ newline @ ''  '' @ json_quote k @ '': '' @ number_to_string (Fin n) @ newline @ ''}'')"
| "sample_stringify JUndefined = Inl TypeError"
| "sample_stringify JFunction = Inl TypeError"
| "sample_stringify v = Inl OutsideModel"

definition sample_parse :: "string \<Rightarrow> error + jsval" where
  "sample_parse text =
     (if text = ''{}'' then Inr (JObj [])
      else if text = ''{'' @ newline @ ''  '' @ json_quote ''a'' @ '': 1'' @ newline @ ''}''
        then Inr (JObj [(''a'', JNum (Fin 1))])
      else if text = ''{'' then Inl (Thrown ''Unexpected end of JSON input'')
      else Inl OutsideModel)"

definition sample_dirname :: "string \<Rightarrow> string" where
  "sample_dirname path = rev (tl (dropWhile (\<lambda>c. c \<noteq> CHR ''/'') (rev path)))"

definition sample_rt :: runtime where
  "sample_rt = \<lparr>json_stringify = sample_stringify, json_parse = sample_parse,
                 dirname = sample_dirname\<rparr>"

definition no_faults :: io where
  "no_faults = \<lparr>uuid = ''0b9d'', access_err = None, read_err = None, open_err = None,
                 write_err = None, sync_err = None, close_err = None, rename_err = None,
                 unlink_err = None\<rparr>"

definition old_files :: fs where
  "old_files = Map.empty(''data/ids.json'' \<mapsto> ''{}'')"

definition sync_fails :: io where
  "sync_fails = no_faults\<lparr>sync_err := Some ''EIO''\<rparr>"

definition dirty_store :: store where
  "dirty_store = sample_store\<lparr>data := JObj [(''a'', JNum (Fin 1))], dirty := True\<rparr>"

definition fresh_store :: store where
  "fresh_store = sample_store\<lparr>initialized := False\<rparr>"

definition throwing_mutator :: "jsval \<Rightarrow> error + jsval" where
  "throwing_mutator d = Inl (Thrown ''boom'')"

definition nested_store :: store where
  "nested_store = sample_store\<lparr>data :=
     JObj [(''a'', JObj [(''x'', JNum (Fin 1))]), (''b'', JNum (Fin 2))]\<rparr>"

definition callback_store :: store where
  "callback_store = sample_store\<lparr>data := JObj [(''f'', JFunction)]\<rparr>"

definition items_store :: store where
  "items_store = sample_store\<lparr>data := JObj [(''items'', JArr [] [])], dirty := True\<rparr>"

definition null_store :: store where
  "null_store = sample_store\<lparr>data := JObj [(''a'', JNull)]\<rparr>"

definition number_store :: store where
  "number_store = sample_store\<lparr>data := JObj [(''a'', JNum (Fin 5))]\<rparr>"

definition sample_schedule :: "event list" where
  "sample_schedule = [Call, Call, Resume 0, Suspend 0, Call, Suspend 0, Finish 0, Resume 1]"
definition sample_mutex :: async_mutex where
  "sample_mutex = \<lparr>queue = 3, fresh = 4, resolved = [1, 0],
      calls = [(0, 1, Done), (1, 2, Running), (2, 3, Waiting)],
      trace = [Begin 0, End 0, Begin 1]\<rparr>"

section \<open>Key validation: proofs\<close>

lemma validateKeys_from_accepts:
  "(\<exists>ks. validateKeys_from i keys = Inr ks) \<longleftrightarrow> list_all key_accepted keys"
  by (induction i keys rule: validateKeys_from.induct) (auto split: sum.splits)

lemma validateKeys_from_rejects:
  "\<not> list_all key_accepted keys \<Longrightarrow>
     \<exists>j<length keys. list_all key_accepted (take j keys) \<and> \<not> key_accepted (keys ! j)
        \<and> validateKeys_from i keys = Inl (invalid_key (i + j) (keys ! j))"
proof (induction i keys rule: validateKeys_from.induct)
  case (1 i)
  then show ?case by simp
next
  case (2 i n keys)
  then have "\<not> list_all key_accepted keys" by simp
  from 2(1)[OF this] obtain j where j: "j < length keys" "list_all key_accepted (take j keys)"
    "\<not> key_accepted (keys ! j)" "validateKeys_from (Suc i) keys = Inl (invalid_key (Suc i + j) (keys ! j))"
    by blast
  then show ?case
    by (intro exI[of _ "Suc j"]) simp
next
  case (4 i s keys)
  then have "\<not> list_all key_accepted keys" by simp
  from 4(1)[OF this] obtain j where j: "j < length keys" "list_all key_accepted (take j keys)"
    "\<not> key_accepted (keys ! j)" "validateKeys_from (Suc i) keys = Inl (invalid_key (Suc i + j) (keys ! j))"
    by blast
  then show ?case
    by (intro exI[of _ "Suc j"]) simp
qed (auto intro!: exI[of _ 0])

text \<open>
  Claim C9, as the source has it. Validation succeeds exactly when every key is a string
  or a finite number; the empty string is let through. Otherwise the first offending
  key, at index \<open>i\<close>, decides the error: it carries \<open>i\<close> and, for a key that is neither a
  number nor a string, the key's \<^verbatim>\<open>typeof\<close>; for a number that is not finite it carries
  the number. \<^verbatim>\<open>setPath\<close> and \<^verbatim>\<open>setPathAndSave\<close> fail with that error and leave the store
  and the files as they were; \<^verbatim>\<open>getPath\<close> and \<^verbatim>\<open>hasPath\<close> fail with it on an initialized
  store.
\<close>

theorem C9_validateKeys_amended:
  "((\<exists>ks. validateKeys keys = Inr ks) \<longleftrightarrow> list_all key_accepted keys) \<and>
   (\<not> list_all key_accepted keys \<longrightarrow>
      (\<exists>i<length keys.
          list_all key_accepted (take i keys) \<and> \<not> key_accepted (keys ! i)
        \<and> validateKeys keys = Inl (invalid_key i (keys ! i))
        \<and> setPath s keys v = (Inl (invalid_key i (keys ! i)), s)
        \<and> setPathAndSave rt io s keys v files = (Inl (invalid_key i (keys ! i)), s, files)
        \<and> (initialized s \<longrightarrow> getPath s keys = Inl (invalid_key i (keys ! i))
                              \<and> hasPath s keys = Inl (invalid_key i (keys ! i)))))"
proof (intro conjI impI)
  show "(\<exists>ks. validateKeys keys = Inr ks) \<longleftrightarrow> list_all key_accepted keys"
    unfolding validateKeys_def by (rule validateKeys_from_accepts)
next
  assume "\<not> list_all key_accepted keys"
  from validateKeys_from_rejects[OF this, of 0]
  obtain i where i: "i < length keys" "list_all key_accepted (take i keys)"
    "\<not> key_accepted (keys ! i)" "validateKeys keys = Inl (invalid_key i (keys ! i))"
    unfolding validateKeys_def by auto
  have "setPath s keys v = (Inl (invalid_key i (keys ! i)), s)"
    by (simp add: setPath_def i(4))
  moreover have "setPathAndSave rt io s keys v files = (Inl (invalid_key i (keys ! i)), s, files)"
    by (simp add: setPathAndSave_def i(4))
  moreover have "initialized s \<longrightarrow> getPath s keys = Inl (invalid_key i (keys ! i))
      \<and> hasPath s keys = Inl (invalid_key i (keys ! i))"
    by (simp add: getPath_def hasPath_def i(4))
  ultimately show "\<exists>i<length keys.
          list_all key_accepted (take i keys) \<and> \<not> key_accepted (keys ! i)
        \<and> validateKeys keys = Inl (invalid_key i (keys ! i))
        \<and> setPath s keys v = (Inl (invalid_key i (keys ! i)), s)
        \<and> setPathAndSave rt io s keys v files = (Inl (invalid_key i (keys ! i)), s, files)
        \<and> (initialized s \<longrightarrow> getPath s keys = Inl (invalid_key i (keys ! i))
                              \<and> hasPath s keys = Inl (invalid_key i (keys ! i)))"
    using i by blast
qed

text \<open>
  The theorem at the keys \<^verbatim>\<open>['a', true, NaN]\<close>: the boolean at index 1 is the first
  offending key, and the error names the index and the type.
\<close>

theorem C9_validateKeys_amended_witness:
  "\<not> list_all key_accepted [JStr ''a'', JBool True, JNum NaN]
   \<and> validateKeys [JStr ''a'', JBool True, JNum NaN] = Inl (InvalidKeyType 1 ''boolean'')
   \<and> setPath sample_store [JStr ''a'', JBool True, JNum NaN] JNull
        = (Inl (InvalidKeyType 1 ''boolean''), sample_store)
   \<and> getPath sample_store [JStr ''a'', JBool True, JNum NaN] = Inl (InvalidKeyType 1 ''boolean'')
   \<and> message (InvalidKeyType 1 ''boolean'')
        = ''Invalid key at index 1: expected string or number, got boolean''"
proof -
  let ?keys = "[JStr ''a'', JBool True, JNum NaN]"
  have n: "\<not> list_all key_accepted ?keys" by simp
  have v: "validateKeys ?keys = Inl (InvalidKeyType 1 ''boolean'')"
    by (simp add: validateKeys_def)
  have init: "initialized sample_store" by (simp add: sample_store_def)
  have m: "message (InvalidKeyType 1 ''boolean'')
        = ''Invalid key at index 1: expected string or number, got boolean''"
    by code_simp
  from C9_validateKeys_amended[of ?keys sample_store JNull] n
  obtain i where i: "validateKeys ?keys = Inl (invalid_key i (?keys ! i))"
    "setPath sample_store ?keys JNull = (Inl (invalid_key i (?keys ! i)), sample_store)"
    "initialized sample_store \<longrightarrow> getPath sample_store ?keys = Inl (invalid_key i (?keys ! i))"
    by blast
  from i(1) v have e: "invalid_key i (?keys ! i) = InvalidKeyType 1 ''boolean''" by simp
  show ?thesis using n v i(2,3) init m unfolding e by simp
qed

text \<open>
  Claim C9 as the specification words it fails: the path \<^verbatim>\<open>['']\<close> passes validation,
  and the empty string is not a non-empty string.
\<close>

theorem C9_empty_string_key_counterexample:
  "validateKeys [JStr ''''] = Inr [KStr ''''] \<and> \<not> spec_valid_key (JStr '''')"
  by (simp add: validateKeys_def)

section \<open>The atomic writer: proofs\<close>


lemma tmpPath_neq: "tmpPath_of path io \<noteq> path"
  unfolding tmpPath_of_def by (metis append_self_conv list.distinct(1) Nil_is_append_conv)

lemma handle_other: 
  "writeAtomic_handle rt io tmp d files = (r, files') \<Longrightarrow> p \<noteq> tmp \<Longrightarrow> files' p = files p"
  by (auto simp: writeAtomic_handle_def fs_writeFile_def split: sum.splits option.splits prod.splits)

lemma handle_result:
  "fst (writeAtomic_handle rt io tmp d files) =
     (case json_stringify rt d of Inl e \<Rightarrow> Inl e
      | Inr text \<Rightarrow> (case write_err io of Some (c, w) \<Rightarrow> Inl (SystemError c)
           | None \<Rightarrow> fs_sync io))"
  by (auto simp: writeAtomic_handle_def fs_writeFile_def split: sum.splits option.splits prod.splits)

lemma handle_tmp:
  "files tmp \<noteq> None \<Longrightarrow> snd (writeAtomic_handle rt io tmp d files) tmp \<noteq> None"
  by (auto simp: writeAtomic_handle_def fs_writeFile_def split: sum.splits option.splits prod.splits)

lemma handle_success:
  "json_stringify rt d = Inr text \<Longrightarrow> write_err io = None \<Longrightarrow> sync_err io = None \<Longrightarrow>
     writeAtomic_handle rt io tmp d files = (Inr (), files(tmp \<mapsto> text))"
  by (simp add: writeAtomic_handle_def fs_writeFile_def fs_sync_def)

lemma try_failure:
  assumes "open_err io = None" "step_error rt io d = Some e"
  shows "\<exists>files'. writeAtomic_try rt io path tmp d files = (Inl e, files')
           \<and> (\<forall>p. p \<noteq> tmp \<longrightarrow> files' p = files p) \<and> files' tmp \<noteq> None"
proof -
  obtain r files2 where h: "writeAtomic_handle rt io tmp d (files(tmp \<mapsto> [])) = (r, files2)"
    by (cases "writeAtomic_handle rt io tmp d (files(tmp \<mapsto> []))") 
  have other: "\<forall>p. p \<noteq> tmp \<longrightarrow> files2 p = files p"
    using handle_other[OF h] by simp
  have r: "r = (case json_stringify rt d of Inl e \<Rightarrow> Inl e
      | Inr text \<Rightarrow> (case write_err io of Some (c, w) \<Rightarrow> Inl (SystemError c)
           | None \<Rightarrow> fs_sync io))"
    using handle_result[of rt io tmp d "files(tmp \<mapsto> [])"] h by simp
  have tmp: "files2 tmp \<noteq> None"
    using handle_tmp[of "files(tmp \<mapsto> [])" tmp rt io d] h by simp
  show ?thesis
    using assms other tmp
    by (auto simp: writeAtomic_try_def fs_open_w_def h r fs_close_def fs_sync_def fs_rename_def
         step_error_def split: sum.splits option.splits prod.splits)
qed

lemma writeAtomic_failure:
  assumes "open_err io = None" "step_error rt io d = Some e"
  shows "\<exists>files'. writeAtomic rt io path d files = (Inl e, files')
      \<and> files' path = files path
      \<and> (\<forall>p. p \<noteq> tmpPath_of path io \<longrightarrow> files' p = files p)
      \<and> (files' (tmpPath_of path io) = None \<longleftrightarrow> unlink_err io = None)"
proof -
  from try_failure[OF assms, of path "tmpPath_of path io" files]
  obtain files1 where t: "writeAtomic_try rt io path (tmpPath_of path io) d files = (Inl e, files1)"
    "\<forall>p. p \<noteq> tmpPath_of path io \<longrightarrow> files1 p = files p" "files1 (tmpPath_of path io) \<noteq> None"
    by blast
  have p: "path \<noteq> tmpPath_of path io" using tmpPath_neq[of path io] by simp
  show ?thesis
    using t p
    by (auto simp: writeAtomic_def Let_def fs_unlink_def split: option.splits)
qed

lemma writeAtomic_success:
  assumes "open_err io = None" "json_stringify rt d = Inr text" "write_err io = None"
    "sync_err io = None" "close_err io = None" "rename_err io = None"
  shows "writeAtomic rt io path d files = (Inr (), (files(tmpPath_of path io := None))(path \<mapsto> text))"
  using assms
  by (simp add: writeAtomic_def Let_def writeAtomic_try_def fs_open_w_def handle_success
        fs_close_def fs_rename_def)

lemma writeAtomic_success_iff:
  assumes "open_err io = None"
  shows "isl (fst (writeAtomic rt io path d files)) \<longleftrightarrow> step_error rt io d \<noteq> None"
proof (cases "step_error rt io d")
  case None
  then obtain str where "json_stringify rt d = Inr str" "write_err io = None"
    "sync_err io = None" "close_err io = None" "rename_err io = None"
    by (auto simp: step_error_def split: option.splits sum.splits)
  from writeAtomic_success[OF assms this] None show ?thesis by simp
next
  case (Some e)
  from writeAtomic_failure[OF assms Some, of path files] Some show ?thesis by auto
qed

lemma writeAtomic_v1_eq: "writeAtomic_v1 rt io s files = writeAtomic rt io (filePath s) (data s) files"
  by (simp add: writeAtomic_v1_def writeAtomic_def)

section \<open>The document store: proofs\<close>


lemma structuredClone_Inr: "structuredClone v = Inr c \<Longrightarrow> c = v \<and> cloneable v"
  by (auto simp: structuredClone_def split: if_splits)

lemma updateAndSave_failure:
  assumes "initialized s" "updateAndSave rt io s u files = (Inl e, s', files')"
  shows "s' = s"
  using assms
  by (auto simp: updateAndSave_def updateAndSave_interleaved_def updateAndSave_try_def
      after_updater_def Let_def structuredClone_def
      split: if_splits sum.splits prod.splits updater.splits)

lemma updateAndSave_success:
  assumes "initialized s" "updateAndSave rt io s u files = (Inr r, s', files')"
  shows "\<not> dirty s' \<and> apply_updater (data s) u = Inr (data s')
     \<and> fst (writeAtomic rt io (filePath s) (data s') files) = Inr ()"
  using assms
  by (auto simp: updateAndSave_def updateAndSave_interleaved_def updateAndSave_try_def
      after_updater_def Let_def structuredClone_def
      split: if_splits sum.splits prod.splits updater.splits)

lemma updateAndSave_fails_when:
  assumes "initialized s"
    "isl (apply_updater (data s) u) \<or>
     (\<exists>d. apply_updater (data s) u = Inr d \<and> isl (fst (writeAtomic rt io (filePath s) d files)))"
  shows "isl (fst (updateAndSave rt io s u files))"
  using assms
  by (auto simp: updateAndSave_def updateAndSave_interleaved_def updateAndSave_try_def
      after_updater_def Let_def structuredClone_def isl_def
      split: if_splits sum.splits prod.splits updater.splits)

text \<open>
  An unqueued call changes the document and can set the dirty flag; it never clears the
  flag and never touches the other fields.
\<close>

lemma update_keeps:
  "filePath (snd (update s u)) = filePath s \<and> initialized (snd (update s u)) = initialized s
   \<and> (dirty s \<longrightarrow> dirty (snd (update s u)))"
  by (simp add: update_def split: sum.splits)

lemma setPath_keeps:
  "filePath (snd (setPath s keys v)) = filePath s
   \<and> initialized (snd (setPath s keys v)) = initialized s
   \<and> (dirty s \<longrightarrow> dirty (snd (setPath s keys v)))"
  by (simp add: setPath_def update_keeps split: sum.splits)

lemma setData_keeps:
  "filePath (snd (setData s d)) = filePath s \<and> initialized (snd (setData s d)) = initialized s
   \<and> (dirty s \<longrightarrow> dirty (snd (setData s d)))"
  by (simp add: setData_def)

lemma run_unqueued_keeps:
  "filePath (run_unqueued cs s) = filePath s
   \<and> initialized (run_unqueued cs s) = initialized s
   \<and> (dirty s \<longrightarrow> dirty (run_unqueued cs s))"
proof (induction cs arbitrary: s)
  case Nil
  show ?case by simp
next
  case (Cons c cs)
  show ?case
  proof (cases c)
    case (CallUpdate u)
    with Cons[of "snd (update s u)"] update_keeps[of s u] show ?thesis by simp
  next
    case (CallSetPath keys v)
    with Cons[of "snd (setPath s keys v)"] setPath_keeps[of s keys v] show ?thesis by simp
  next
    case (CallSetData d)
    with Cons[of "snd (setData s d)"] setData_keeps[of s d] show ?thesis by simp
  qed
qed

lemma after_updater_keeps:
  "filePath (after_updater s u cs) = filePath s
   \<and> initialized (after_updater s u cs) = initialized s
   \<and> (dirty s \<longrightarrow> dirty (after_updater s u cs))"
  using run_unqueued_keeps[of cs s] by (simp add: after_updater_def split: updater.splits)

lemma after_updater_Nil: "after_updater s u [] = s"
  by (simp add: after_updater_def split: updater.splits)

lemma updateAndSave_try_keeps:
  assumes "updateAndSave_try rt io s u in_updater in_write files = (r, s1, files1)"
  shows "filePath s1 = filePath s \<and> initialized s1 = initialized s
       \<and> (isl r \<and> dirty s \<longrightarrow> dirty s1) \<and> (\<not> isl r \<longrightarrow> \<not> dirty s1)"
proof (cases "apply_updater (data s) u")
  case (Inl e)
  with assms have "r = Inl e" "s1 = after_updater s u in_updater"
    by (simp_all add: updateAndSave_try_def)
  with after_updater_keeps[of s u in_updater] show ?thesis by simp
next
  case (Inr d)
  let ?s1 = "(after_updater s u in_updater)\<lparr>data := d\<rparr>"
  let ?s2 = "run_unqueued in_write ?s1"
  obtain w f where w: "writeAtomic rt io (filePath ?s1) (data ?s1) files = (w, f)"
    by (cases "writeAtomic rt io (filePath ?s1) (data ?s1) files")
  have k: "filePath ?s2 = filePath s" "initialized ?s2 = initialized s" "dirty s \<longrightarrow> dirty ?s2"
    using run_unqueued_keeps[of in_write ?s1] after_updater_keeps[of s u in_updater] by simp_all
  show ?thesis
  proof (cases w)
    case (Inl e)
    with assms Inr w have "r = Inl e" "s1 = ?s2"
      by (simp_all add: updateAndSave_try_def Let_def)
    with k show ?thesis by simp
  next
    case (Inr x)
    with assms \<open>apply_updater (data s) u = Inr d\<close> w have "r = Inr ()" "s1 = ?s2\<lparr>dirty := False\<rparr>"
      by (simp_all add: updateAndSave_try_def Let_def)
    with k show ?thesis by simp
  qed
qed

lemma interleaved_outcome:
  assumes "initialized s"
    and "updateAndSave_interleaved rt io s u in_updater in_write files = (r, s', files')"
  shows "(isl r \<longrightarrow> data s' = data s \<and> filePath s' = filePath s \<and> initialized s'
            \<and> (dirty s \<longrightarrow> dirty s'))
       \<and> (\<not> isl r \<longrightarrow> \<not> dirty s')"
proof (cases "structuredClone (data s)")
  case (Inl e)
  with assms have "r = Inl e" "s' = s" by (simp_all add: updateAndSave_interleaved_def)
  with assms(1) show ?thesis by simp
next
  case (Inr backup)
  then have b: "backup = data s" using structuredClone_Inr by blast
  obtain r1 s1 f1 where t: "updateAndSave_try rt io s u in_updater in_write files = (r1, s1, f1)"
    by (cases "updateAndSave_try rt io s u in_updater in_write files")
  note k = updateAndSave_try_keeps[OF t]
  show ?thesis
  proof (cases r1)
    case (Inl e)
    with assms Inr t have "r = Inl e" "s' = s1\<lparr>data := backup\<rparr>"
      by (simp_all add: updateAndSave_interleaved_def)
    with k b assms(1) Inl show ?thesis by simp
  next
    case (Inr x)
    with assms \<open>structuredClone (data s) = Inr backup\<close> t have "r = Inr ()" "s' = s1"
      by (simp_all add: updateAndSave_interleaved_def)
    with k Inr show ?thesis by simp
  qed
qed

text \<open>
  Claim C1, amended. The store \<open>s\<close> is the one the body of \<^verbatim>\<open>updateAndSave\<close> finds when it
  holds the mutex. When the call rejects, the document is the one of \<open>s\<close>, in every
  interleaving; the call itself does not assign the dirty flag on that branch, so the
  flag keeps its value, and the store is \<open>s\<close> again, when no unqueued call reached the
  store during the call. An unqueued call can only set the flag: a flag that was true
  stays true. When the call resolves, the dirty flag is false, and the document is what
  the updater produced when no unqueued call ran during the write. The call does reject
  when the updater throws and when the atomic write of the updated document fails.
\<close>

theorem C1_updateAndSave_amended:
  assumes "initialized s"
    and "updateAndSave_interleaved rt io s u in_updater in_write files = (r, s', files')"
  shows "(isl r \<longrightarrow> data s' = data s \<and> filePath s' = filePath s \<and> initialized s'
            \<and> (dirty s \<longrightarrow> dirty s'))
       \<and> (isl r \<and> in_updater = [] \<and> in_write = [] \<longrightarrow> dirty s' = dirty s \<and> s' = s)
       \<and> (\<not> isl r \<longrightarrow> \<not> dirty s')
       \<and> (\<not> isl r \<and> in_write = [] \<longrightarrow> apply_updater (data s) u = Inr (data s'))
       \<and> (isl (apply_updater (data s) u) \<longrightarrow> isl r)
       \<and> (\<forall>d. apply_updater (data s) u = Inr d
               \<and> isl (fst (writeAtomic rt io (filePath s) d files)) \<longrightarrow> isl r)"
proof -
  note o = interleaved_outcome[OF assms]
  have quiet: "isl r \<and> in_updater = [] \<and> in_write = [] \<longrightarrow> dirty s' = dirty s \<and> s' = s"
  proof
    assume a: "isl r \<and> in_updater = [] \<and> in_write = []"
    then obtain e where "r = Inl e" by (cases r) auto
    with assms(2) a have "updateAndSave rt io s u files = (Inl e, s', files')"
      by (simp add: updateAndSave_def)
    from updateAndSave_failure[OF assms(1) this] show "dirty s' = dirty s \<and> s' = s" by simp
  qed
  have produced: "\<not> isl r \<and> in_write = [] \<longrightarrow> apply_updater (data s) u = Inr (data s')"
    using assms
    by (auto simp: updateAndSave_interleaved_def updateAndSave_try_def Let_def
        structuredClone_def split: if_splits sum.splits prod.splits)
  have thrown: "isl (apply_updater (data s) u) \<longrightarrow> isl r"
    using assms
    by (auto simp: updateAndSave_interleaved_def updateAndSave_try_def Let_def
        structuredClone_def isl_def split: if_splits sum.splits prod.splits)
  have unwritten: "\<forall>d. apply_updater (data s) u = Inr d
               \<and> isl (fst (writeAtomic rt io (filePath s) d files)) \<longrightarrow> isl r"
    using assms after_updater_keeps[of s u in_updater]
    by (auto simp: updateAndSave_interleaved_def updateAndSave_try_def Let_def
        structuredClone_def isl_def split: if_splits sum.splits prod.splits)
  from o quiet produced thrown unwritten show ?thesis by blast
qed

lemma sample_merge:
  "apply_updater (JObj [(''a'', JNum (Fin 1))]) (Partial (JObj [(''a'', JNum (Fin 2))]))
     = Inr (JObj [(''a'', JNum (Fin 2))])"
  by (simp add: apply_updater_def spread_merge_def define_all_def)

lemma sample_write_fails:
  "writeAtomic sample_rt sync_fails ''data/ids.json'' (JObj [(''a'', JNum (Fin 2))]) old_files
     = (Inl (SystemError ''EIO''), old_files)"
proof -
  let ?d = "JObj [(''a'', JNum (Fin 2))]"
  have o: "open_err sync_fails = None" "unlink_err sync_fails = None"
    by (simp_all add: sync_fails_def no_faults_def)
  have e: "step_error sample_rt sync_fails ?d = Some (SystemError ''EIO'')"
    by (simp add: step_error_def sync_fails_def no_faults_def sample_rt_def)
  from writeAtomic_failure[OF o(1) e, of "''data/ids.json''" old_files] o(2)
  obtain files1 where w: "writeAtomic sample_rt sync_fails ''data/ids.json'' ?d old_files
        = (Inl (SystemError ''EIO''), files1)"
     "\<forall>p. p \<noteq> tmpPath_of ''data/ids.json'' sync_fails \<longrightarrow> files1 p = old_files p"
     "files1 (tmpPath_of ''data/ids.json'' sync_fails) = None"
    by auto
  have t: "old_files (tmpPath_of ''data/ids.json'' sync_fails) = None"
    by (simp add: old_files_def tmpPath_of_def)
  have f: "files1 = old_files"
  proof
    fix p show "files1 p = old_files p"
      using w(2,3) t by (cases "p = tmpPath_of ''data/ids.json'' sync_fails") auto
  qed
  with w(1) show ?thesis by simp
qed

text \<open>
  The theorem at a store that holds \<^verbatim>\<open>{a: 1}\<close> and is dirty, with no unqueued call: the
  partial \<^verbatim>\<open>{a: 2}\<close> is merged, the sync of the temporary file fails, and the call rejects
  with the store and the files as before.
\<close>

theorem C1_updateAndSave_amended_witness:
  "initialized dirty_store
   \<and> updateAndSave_interleaved sample_rt sync_fails dirty_store
        (Partial (JObj [(''a'', JNum (Fin 2))])) [] [] old_files
       = (Inl (SystemError ''EIO''), dirty_store, old_files)
   \<and> data dirty_store = JObj [(''a'', JNum (Fin 1))] \<and> dirty dirty_store"
proof -
  let ?u = "Partial (JObj [(''a'', JNum (Fin 2))])"
  have i: "initialized dirty_store" by (simp add: dirty_store_def sample_store_def)
  have d: "data dirty_store = JObj [(''a'', JNum (Fin 1))]" "dirty dirty_store"
     "filePath dirty_store = ''data/ids.json''"
    by (simp_all add: dirty_store_def sample_store_def)
  have a: "apply_updater (data dirty_store) ?u = Inr (JObj [(''a'', JNum (Fin 2))])"
    unfolding d by (rule sample_merge)
  note w = sample_write_fails
  obtain r s' files' where
    u: "updateAndSave_interleaved sample_rt sync_fails dirty_store ?u [] [] old_files = (r, s', files')"
    by (cases "updateAndSave_interleaved sample_rt sync_fails dirty_store ?u [] [] old_files")
  have wf: "isl (fst (writeAtomic sample_rt sync_fails (filePath dirty_store) (JObj [(''a'', JNum (Fin 2))]) old_files))"
    unfolding d w by simp
  from C1_updateAndSave_amended[OF i u] a wf have "isl r" "s' = dirty_store" by auto
  moreover have "r = Inl (SystemError ''EIO'')" "files' = old_files"
    using u i a w d
    by (simp_all add: updateAndSave_interleaved_def updateAndSave_try_def after_updater_def
        structuredClone_def Let_def)
  ultimately show ?thesis using u i d by simp
qed

text \<open>
  The claim as worded fails on the dirty flag. On the clean store \<^verbatim>\<open>{}\<close>, while the write
  of \<^verbatim>\<open>updateAndSave({a: 2})\<close> is pending, other code calls \<^verbatim>\<open>update({})\<close>; the sync fails
  and the call rejects with the document restored and the flag now true. A mutator that
  calls \<^verbatim>\<open>update({})\<close> on the store and then throws gives the same store, with no
  timing involved.
\<close>

theorem C1_dirty_flag_counterexample:
  "initialized sample_store \<and> \<not> dirty sample_store
   \<and> updateAndSave_interleaved sample_rt sync_fails sample_store
        (Partial (JObj [(''a'', JNum (Fin 2))])) [] [CallUpdate (Partial (JObj []))] old_files
       = (Inl (SystemError ''EIO''), sample_store\<lparr>dirty := True\<rparr>, old_files)
   \<and> updateAndSave_interleaved sample_rt no_faults sample_store
        (Mutator throwing_mutator) [CallUpdate (Partial (JObj []))] [] old_files
       = (Inl (Thrown ''boom''), sample_store\<lparr>dirty := True\<rparr>, old_files)"
proof -
  have s: "initialized sample_store" "\<not> dirty sample_store" "data sample_store = JObj []"
    "filePath sample_store = ''data/ids.json''"
    by (simp_all add: sample_store_def)
  have m: "apply_updater (JObj []) (Partial (JObj [(''a'', JNum (Fin 2))]))
             = Inr (JObj [(''a'', JNum (Fin 2))])"
    by (simp add: apply_updater_def spread_merge_def define_all_def)
  have e: "apply_updater (JObj []) (Partial (JObj [])) = Inr (JObj [])"
    by (simp add: apply_updater_def spread_merge_def define_all_def)
  have t: "apply_updater (JObj []) (Mutator throwing_mutator) = Inl (Thrown ''boom'')"
    by (simp add: apply_updater_def structuredClone_def throwing_mutator_def)
  note w = sample_write_fails
  have 1: "updateAndSave_interleaved sample_rt sync_fails sample_store
        (Partial (JObj [(''a'', JNum (Fin 2))])) [] [CallUpdate (Partial (JObj []))] old_files
       = (Inl (SystemError ''EIO''), sample_store\<lparr>dirty := True\<rparr>, old_files)"
    using s m w
    by (simp add: updateAndSave_interleaved_def updateAndSave_try_def after_updater_def
        structuredClone_def Let_def update_def spread_merge_def define_all_def apply_updater_def
        sample_store_def)
  have 2: "updateAndSave_interleaved sample_rt no_faults sample_store
        (Mutator throwing_mutator) [CallUpdate (Partial (JObj []))] [] old_files
       = (Inl (Thrown ''boom''), sample_store\<lparr>dirty := True\<rparr>, old_files)"
    using s t e
    by (simp add: updateAndSave_interleaved_def updateAndSave_try_def after_updater_def
        structuredClone_def Let_def update_def sample_store_def)
  from s 1 2 show ?thesis by simp
qed

text \<open>
  Claim C2. Once the temporary file is open, if a step of the protocol fails (serialising
  and writing, syncing, closing, renaming), \<^verbatim>\<open>#writeAtomic\<close> rejects with the error of the
  protocol (\<open>step_error\<close>), whatever the unlink does; the target path holds what it held
  before, or is still absent; no other path changes; and the temporary file is gone
  whenever the unlink itself goes through. When the unlink fails, its error is dropped
  and the temporary file stays.
\<close>

theorem C2_writeAtomic_failure:
  assumes "open_err io = None" and "step_error rt io d = Some e"
  shows "\<exists>files'. writeAtomic rt io path d files = (Inl e, files')
      \<and> files' path = files path
      \<and> (\<forall>p. p \<noteq> tmpPath_of path io \<longrightarrow> files' p = files p)
      \<and> (unlink_err io = None \<longrightarrow> files' (tmpPath_of path io) = None)
      \<and> (unlink_err io \<noteq> None \<longrightarrow> files' (tmpPath_of path io) \<noteq> None)"
proof -
  from writeAtomic_failure[OF assms, of path files] show ?thesis by auto
qed

text \<open>
  The theorem where \<^verbatim>\<open>handle.sync()\<close> fails with \<^verbatim>\<open>EIO\<close> while \<^verbatim>\<open>{a: 1}\<close> is written
  over a file holding \<^verbatim>\<open>{}\<close>.
\<close>

theorem C2_writeAtomic_failure_witness:
  "open_err sync_fails = None
   \<and> step_error sample_rt sync_fails (JObj [(''a'', JNum (Fin 1))]) = Some (SystemError ''EIO'')
   \<and> fst (writeAtomic sample_rt sync_fails ''data/ids.json'' (JObj [(''a'', JNum (Fin 1))]) old_files)
        = Inl (SystemError ''EIO'')
   \<and> snd (writeAtomic sample_rt sync_fails ''data/ids.json'' (JObj [(''a'', JNum (Fin 1))]) old_files)
        ''data/ids.json'' = Some ''{}''
   \<and> snd (writeAtomic sample_rt sync_fails ''data/ids.json'' (JObj [(''a'', JNum (Fin 1))]) old_files)
        ''data/ids.json.0b9d.tmp'' = None"
proof -
  have o: "open_err sync_fails = None" by (simp add: sync_fails_def no_faults_def)
  have e: "step_error sample_rt sync_fails (JObj [(''a'', JNum (Fin 1))]) = Some (SystemError ''EIO'')"
    by (simp add: step_error_def sync_fails_def no_faults_def sample_rt_def)
  have u: "unlink_err sync_fails = None" by (simp add: sync_fails_def no_faults_def)
  have t: "tmpPath_of ''data/ids.json'' sync_fails = ''data/ids.json.0b9d.tmp''"
    by (simp add: tmpPath_of_def sync_fails_def no_faults_def)
  from C2_writeAtomic_failure[OF o e, of "''data/ids.json''" old_files] u t
  show ?thesis using o e by (auto simp: old_files_def)
qed


lemma load_creates_default:
  assumes "fs_access io (dirname rt (filePath s)) = Inr ()"
    and "fs_readFile io files (filePath s) = Inl (SystemError ''ENOENT'')"
    and "defaultFactory s () = Inr d"
    and "open_err io = None" and "step_error rt io d = None"
    and "json_stringify rt d = Inr str"
  shows "load rt io s files =
           (Inr (), s\<lparr>data := d, initialized := True, dirty := False\<rparr>,
            (files(tmpPath_of (filePath s) io := None))(filePath s \<mapsto> str))"
proof -
  from assms(5,6) have "write_err io = None" "sync_err io = None" "close_err io = None" "rename_err io = None"
    by (auto simp: step_error_def split: option.splits sum.splits)
  from writeAtomic_success[OF assms(4) assms(6) this, of "filePath s" files]
  show ?thesis using assms(1,2,3)
    by (simp add: load_def Let_def readOrCreateDefault_def)
qed

lemma reload_missing:
  assumes "initialized s" and "fs_readFile io files (filePath s) = Inl (SystemError ''ENOENT'')"
  shows "reload rt io s files = (Inl (FileMissing (filePath s) (SystemError ''ENOENT'')), s, files)"
  using assms by (simp add: reload_def)

text \<open>
  Claim C3. Let the parent directory be accessible and let the read of the target file
  reject with \<^verbatim>\<open>ENOENT\<close>. Then \<^verbatim>\<open>load\<close>, when the default factory returns a document and
  the atomic write meets no fault, writes the serialised default document to the target
  path and adopts it, with \<open>initialized = true\<close> and \<open>dirty = false\<close>; and \<^verbatim>\<open>reload\<close> on
  an initialized store rejects with the file-missing error and leaves the store and the
  files as they were.
\<close>

theorem C3_missing_file:
  assumes "fs_access io (dirname rt (filePath s)) = Inr ()"
    and "fs_readFile io files (filePath s) = Inl (SystemError ''ENOENT'')"
  shows "(\<forall>d str. defaultFactory s () = Inr d \<and> json_stringify rt d = Inr str
             \<and> open_err io = None \<and> step_error rt io d = None \<longrightarrow>
           load rt io s files =
             (Inr (), s\<lparr>data := d, initialized := True, dirty := False\<rparr>,
              (files(tmpPath_of (filePath s) io := None))(filePath s \<mapsto> str)))
       \<and> (initialized s \<longrightarrow>
           reload rt io s files = (Inl (FileMissing (filePath s) (SystemError ''ENOENT'')), s, files))"
  using load_creates_default[OF assms] reload_missing[OF _ assms(2)] by blast


text \<open>
  The theorem with no file at all: \<^verbatim>\<open>load\<close> on a new store creates \<^verbatim>\<open>data/ids.json\<close>
  holding \<^verbatim>\<open>{}\<close>; \<^verbatim>\<open>reload\<close> on a loaded store rejects and creates nothing.
\<close>

theorem C3_missing_file_witness:
  "fs_access no_faults (dirname sample_rt (filePath fresh_store)) = Inr ()
   \<and> fs_readFile no_faults Map.empty (filePath fresh_store) = Inl (SystemError ''ENOENT'')
   \<and> load sample_rt no_faults fresh_store Map.empty
        = (Inr (), sample_store, Map.empty(''data/ids.json'' \<mapsto> ''{}''))
   \<and> reload sample_rt no_faults sample_store Map.empty
        = (Inl (FileMissing ''data/ids.json'' (SystemError ''ENOENT'')), sample_store, Map.empty)"
proof -
  have a: "fs_access no_faults (dirname sample_rt (filePath fresh_store)) = Inr ()"
    by (simp add: fs_access_def no_faults_def)
  have r: "fs_readFile no_faults Map.empty (filePath fresh_store) = Inl (SystemError ''ENOENT'')"
    by (simp add: fs_readFile_def no_faults_def)
  have a': "fs_access no_faults (dirname sample_rt (filePath sample_store)) = Inr ()"
    by (simp add: fs_access_def no_faults_def)
  have r': "fs_readFile no_faults Map.empty (filePath sample_store) = Inl (SystemError ''ENOENT'')"
    by (simp add: fs_readFile_def no_faults_def)
  have f: "defaultFactory fresh_store () = Inr (JObj [])" "json_stringify sample_rt (JObj []) = Inr ''{}''"
    "open_err no_faults = None" "step_error sample_rt no_faults (JObj []) = None"
    by (simp_all add: fresh_store_def sample_store_def sample_rt_def no_faults_def step_error_def)
  have s: "fresh_store\<lparr>data := JObj [], initialized := True, dirty := False\<rparr> = sample_store"
    "filePath fresh_store = ''data/ids.json''" "filePath sample_store = ''data/ids.json''"
    "initialized sample_store"
    by (simp_all add: fresh_store_def sample_store_def)
  have m: "(Map.empty(tmpPath_of ''data/ids.json'' no_faults := None))(''data/ids.json'' \<mapsto> ''{}'')
      = Map.empty(''data/ids.json'' \<mapsto> ''{}'')"
    by simp
  from C3_missing_file[OF a r] f s m
  have l: "load sample_rt no_faults fresh_store Map.empty
        = (Inr (), sample_store, Map.empty(''data/ids.json'' \<mapsto> ''{}''))"
    by simp
  from C3_missing_file[OF a' r'] s
  have rl: "reload sample_rt no_faults sample_store Map.empty
        = (Inl (FileMissing ''data/ids.json'' (SystemError ''ENOENT'')), sample_store, Map.empty)"
    by simp
  show ?thesis using a r l rl by simp
qed

lemma save_success:
  assumes "initialized s" "open_err io = None" "step_error rt io (data s) = None"
    "json_stringify rt (data s) = Inr str"
  shows "save rt io s files =
     (Inr (), s\<lparr>dirty := False\<rparr>, (files(tmpPath_of (filePath s) io := None))(filePath s \<mapsto> str))"
proof -
  from assms(3,4) have "write_err io = None" "sync_err io = None" "close_err io = None" "rename_err io = None"
    by (auto simp: step_error_def split: option.splits sum.splits)
  from writeAtomic_success[OF assms(2) assms(4) this, of "filePath s" files]
  show ?thesis using assms(1) by (simp add: save_def)
qed

lemma load_existing:
  assumes "fs_access io (dirname rt (filePath s)) = Inr ()"
    and "read_err io = None" and "files (filePath s) = Some str" and "json_parse rt str = Inr d"
  shows "load rt io s files = (Inr (), s\<lparr>data := d, initialized := True, dirty := False\<rparr>, files)"
  using assms by (simp add: load_def Let_def readOrCreateDefault_def fs_readFile_def)

text \<open>
  Claim C4. Let \<open>D\<close> be a document that the runtime's parser reads back from the
  runtime's serialiser. After the in-memory document of an initialized store is set to
  \<open>D\<close> and saved without fault, \<^verbatim>\<open>load\<close> on a new store for the same path yields the
  document \<open>D\<close>.
\<close>

theorem C4_save_load_roundtrip:
  assumes "initialized s"
    and "setData s D = (Inr (), s1)"
    and "json_stringify rt D = Inr str" and "json_parse rt str = Inr D"
    and "open_err io1 = None" and "step_error rt io1 D = None"
    and "save rt io1 s1 files = (r1, s2, files1)"
    and "new_store (filePath s) factory = Inr t"
    and "access_err io2 = None" and "read_err io2 = None"
    and "load rt io2 t files1 = (r2, t', files2)"
  shows "r1 = Inr () \<and> \<not> dirty s2 \<and> files1 (filePath s) = Some str
       \<and> r2 = Inr () \<and> data t' = D \<and> initialized t' \<and> \<not> dirty t' \<and> files2 = files1"
proof -
  from assms(1,2) have s1: "s1 = s\<lparr>data := D, dirty := True\<rparr>"
    by (simp add: setData_def)
  then have i1: "initialized s1" "data s1 = D" "filePath s1 = filePath s" using assms(1) by simp_all
  from save_success[OF i1(1) assms(5), of rt str files] assms(3,6,7) i1
  have sv: "r1 = Inr ()" "s2 = s1\<lparr>dirty := False\<rparr>"
     "files1 = (files(tmpPath_of (filePath s) io1 := None))(filePath s \<mapsto> str)"
    by simp_all
  from assms(8) have t: "filePath t = filePath s"
    by (auto simp: new_store_def Let_def split: sum.splits)
  have f1: "files1 (filePath t) = Some str" using sv(3) t by simp
  have acc: "fs_access io2 (dirname rt (filePath t)) = Inr ()" using assms(9) by (simp add: fs_access_def)
  from load_existing[of io2 rt t files1 str D, OF acc assms(10) f1 assms(4)] assms(11)
  have "r2 = Inr ()" "t' = t\<lparr>data := D, initialized := True, dirty := False\<rparr>" "files2 = files1"
    by simp_all
  then show ?thesis using sv f1 t by simp
qed


text \<open>The theorem at the document \<^verbatim>\<open>{a: 1}\<close>.\<close>

theorem C4_save_load_roundtrip_witness:
  "initialized sample_store
   \<and> setData sample_store (JObj [(''a'', JNum (Fin 1))]) = (Inr (), dirty_store)
   \<and> json_parse sample_rt (projr (json_stringify sample_rt (JObj [(''a'', JNum (Fin 1))])))
        = Inr (JObj [(''a'', JNum (Fin 1))])
   \<and> fst (save sample_rt no_faults dirty_store old_files) = Inr ()
   \<and> new_store ''data/ids.json'' None = Inr fresh_store
   \<and> fst (load sample_rt no_faults fresh_store (snd (snd (save sample_rt no_faults dirty_store old_files))))
        = Inr ()
   \<and> data (fst (snd (load sample_rt no_faults fresh_store
              (snd (snd (save sample_rt no_faults dirty_store old_files))))))
        = JObj [(''a'', JNum (Fin 1))]"
proof -
  let ?D = "JObj [(''a'', JNum (Fin 1))]"
  let ?str = "''{'' @ newline @ ''  '' @ json_quote ''a'' @ '': 1'' @ newline @ ''}''"
  have i: "initialized sample_store" by (simp add: sample_store_def)
  have sd: "setData sample_store ?D = (Inr (), dirty_store)"
    by (simp add: setData_def dirty_store_def sample_store_def)
  have n1: "number_to_string (Fin 1) = ''1''" by code_simp
  have st: "json_stringify sample_rt ?D = Inr ?str"
    by code_simp
  have pa: "json_parse sample_rt ?str = Inr ?D"
    by (simp add: sample_rt_def sample_parse_def newline_def json_quote_def)
  have o: "open_err no_faults = None" "access_err no_faults = None" "read_err no_faults = None"
    by (simp_all add: no_faults_def)
  have se: "step_error sample_rt no_faults ?D = None"
    by (simp add: step_error_def no_faults_def st)
  have ns: "new_store (filePath sample_store) None = Inr fresh_store"
    by (simp add: new_store_def fresh_store_def sample_store_def)
  obtain r1 s2 files1 where sv: "save sample_rt no_faults dirty_store old_files = (r1, s2, files1)"
    by (cases "save sample_rt no_faults dirty_store old_files") 
  obtain r2 t' files2 where ld: "load sample_rt no_faults fresh_store files1 = (r2, t', files2)"
    by (cases "load sample_rt no_faults fresh_store files1") 
  from C4_save_load_roundtrip[OF i sd st pa o(1) se sv ns o(2) o(3) ld]
  have "r1 = Inr ()" "r2 = Inr ()" "data t' = ?D" by simp_all
  then show ?thesis using i sd st pa sv ld ns by (simp add: sample_store_def)
qed

lemma map_of_define_all:
  "distinct (map fst src) \<Longrightarrow>
     map_of (define_all src dst) k = (case map_of src k of Some v \<Rightarrow> Some v | None \<Rightarrow> map_of dst k)"
proof (induction src arbitrary: dst)
  case Nil
  then show ?case by (simp add: define_all_def)
next
  case (Cons p src)
  obtain a b where p: "p = (a, b)" by (cases p)
  have d: "define_all (p # src) dst = define_all src (AList.update a b dst)"
    by (simp add: define_all_def p)
  from Cons.prems p have na: "map_of src a = None" and ds: "distinct (map fst src)"
    by (auto simp: map_of_eq_None_iff)
  show ?case
    unfolding d Cons.IH[OF ds] using na by (auto simp: p update_conv' split: option.splits)
qed

lemma update_outcome:
  "update s u = (r, s') \<Longrightarrow> (isl r \<longrightarrow> s' = s) \<and> (\<not> isl r \<longrightarrow> dirty s')"
  by (auto simp: update_def split: if_splits sum.splits)

text \<open>
  Claim C5. On an initialized store: \<^verbatim>\<open>update\<close> with a partial document makes the
  document an object in which every key of the partial has the partial's value, whole,
  and every other key has the value it had; \<^verbatim>\<open>update\<close> with a mutator hands the mutator a
  clone of the document (in a model of values: the document's value) and adopts what
  the mutator leaves when it returns, and leaves the store as it was when the mutator
  throws or the document cannot be cloned; every update that succeeds leaves
  \<open>dirty = true\<close>, and every update that fails leaves the store unchanged.
\<close>

theorem C5_update:
  assumes "initialized s"
  shows "(\<forall>p ps qs. spread_props (data s) = Inr ps \<and> spread_props p = Inr qs
             \<and> distinct (map fst ps) \<and> distinct (map fst qs) \<longrightarrow>
            (\<exists>merged. update s (Partial p) = (Inr (), s\<lparr>data := JObj merged, dirty := True\<rparr>)
               \<and> (\<forall>k. map_of merged k = (case map_of qs k of Some v \<Rightarrow> Some v | None \<Rightarrow> map_of ps k))))
       \<and> (\<forall>f c. cloneable (data s) \<and> f (data s) = Inr c \<longrightarrow>
              update s (Mutator f) = (Inr (), s\<lparr>data := c, dirty := True\<rparr>))
       \<and> (\<forall>f e. cloneable (data s) \<and> f (data s) = Inl e \<longrightarrow> update s (Mutator f) = (Inl e, s))
       \<and> (\<forall>f. \<not> cloneable (data s) \<longrightarrow> update s (Mutator f) = (Inl DataCloneError, s))
       \<and> (\<forall>u r s'. update s u = (r, s') \<longrightarrow> (isl r \<longrightarrow> s' = s) \<and> (\<not> isl r \<longrightarrow> dirty s'))"
proof (intro conjI allI impI)
  fix p ps qs
  assume a: "spread_props (data s) = Inr ps \<and> spread_props p = Inr qs
             \<and> distinct (map fst ps) \<and> distinct (map fst qs)"
  let ?m = "define_all qs (define_all ps [])"
  have "update s (Partial p) = (Inr (), s\<lparr>data := JObj ?m, dirty := True\<rparr>)"
    using assms a by (simp add: update_def apply_updater_def spread_merge_def)
  moreover have "\<forall>k. map_of ?m k = (case map_of qs k of Some v \<Rightarrow> Some v | None \<Rightarrow> map_of ps k)"
    using a by (auto simp: map_of_define_all split: option.splits)
  ultimately show "\<exists>merged. update s (Partial p) = (Inr (), s\<lparr>data := JObj merged, dirty := True\<rparr>)
               \<and> (\<forall>k. map_of merged k = (case map_of qs k of Some v \<Rightarrow> Some v | None \<Rightarrow> map_of ps k))"
    by blast
next
  fix f :: "jsval \<Rightarrow> error + jsval" and c assume "cloneable (data s) \<and> f (data s) = Inr c"
  then show "update s (Mutator f) = (Inr (), s\<lparr>data := c, dirty := True\<rparr>)"
    using assms by (simp add: update_def apply_updater_def structuredClone_def)
next
  fix f :: "jsval \<Rightarrow> error + jsval" and e assume "cloneable (data s) \<and> f (data s) = Inl e"
  then show "update s (Mutator f) = (Inl e, s)"
    using assms by (simp add: update_def apply_updater_def structuredClone_def)
next
  fix f :: "jsval \<Rightarrow> error + jsval" assume "\<not> cloneable (data s)"
  then show "update s (Mutator f) = (Inl DataCloneError, s)"
    using assms by (simp add: update_def apply_updater_def structuredClone_def)
next
  fix u r s' assume "update s u = (r, s')" "isl r"
  then show "s' = s" using update_outcome by blast
next
  fix u r s' assume "update s u = (r, s')" "\<not> isl r"
  then show "dirty s'" using update_outcome by blast
qed




text \<open>
  The theorem at the document \<^verbatim>\<open>{a: {x: 1}, b: 2}\<close>: the partial \<^verbatim>\<open>{a: {y: 3}}\<close>
  replaces the nested object under \<^verbatim>\<open>a\<close>; a mutator that throws changes nothing; a mutator
  that assigns \<^verbatim>\<open>b = null\<close> is adopted.
\<close>

theorem C5_update_witness:
  "initialized nested_store
   \<and> update nested_store (Partial (JObj [(''a'', JObj [(''y'', JNum (Fin 3))])]))
       = (Inr (), nested_store\<lparr>data := JObj [(''a'', JObj [(''y'', JNum (Fin 3))]), (''b'', JNum (Fin 2))],
                               dirty := True\<rparr>)
   \<and> update nested_store (Mutator throwing_mutator) = (Inl (Thrown ''boom''), nested_store)
   \<and> update nested_store (Mutator (\<lambda>d. set_prop d ''b'' JNull))
       = (Inr (), nested_store\<lparr>data := JObj [(''a'', JObj [(''x'', JNum (Fin 1))]), (''b'', JNull)],
                               dirty := True\<rparr>)"
proof -
  let ?p = "JObj [(''a'', JObj [(''y'', JNum (Fin 3))])]"
  have i: "initialized nested_store" by (simp add: nested_store_def sample_store_def)
  have d: "data nested_store = JObj [(''a'', JObj [(''x'', JNum (Fin 1))]), (''b'', JNum (Fin 2))]"
    by (simp add: nested_store_def)
  have c: "cloneable (data nested_store)" by (simp add: d)
  have t: "throwing_mutator (data nested_store) = Inl (Thrown ''boom'')" by (simp add: throwing_mutator_def)
  have m: "set_prop (data nested_store) ''b'' JNull
     = Inr (JObj [(''a'', JObj [(''x'', JNum (Fin 1))]), (''b'', JNull)])"
    by (simp add: d)
  note C5 = C5_update[OF i]
  from C5 c t have 2: "update nested_store (Mutator throwing_mutator) = (Inl (Thrown ''boom''), nested_store)"
    by blast
  from C5 have mut: "\<And>f c. cloneable (data nested_store) \<and> f (data nested_store) = Inr c \<Longrightarrow>
      update nested_store (Mutator f) = (Inr (), nested_store\<lparr>data := c, dirty := True\<rparr>)"
    by blast
  from mut[of "\<lambda>d. set_prop d ''b'' JNull"] c m
  have 3: "update nested_store (Mutator (\<lambda>d. set_prop d ''b'' JNull))
       = (Inr (), nested_store\<lparr>data := JObj [(''a'', JObj [(''x'', JNum (Fin 1))]), (''b'', JNull)],
                               dirty := True\<rparr>)"
    by simp
  have sp: "spread_props (data nested_store) = Inr [(''a'', JObj [(''x'', JNum (Fin 1))]), (''b'', JNum (Fin 2))]
     \<and> spread_props ?p = Inr [(''a'', JObj [(''y'', JNum (Fin 3))])]
     \<and> distinct (map fst [(''a'', JObj [(''x'', JNum (Fin 1))]), (''b'', JNum (Fin 2))])
     \<and> distinct (map fst [(''a'', JObj [(''y'', JNum (Fin 3))])])"
    by (simp add: d)
  from C5 sp obtain merged where
    mg: "update nested_store (Partial ?p) = (Inr (), nested_store\<lparr>data := JObj merged, dirty := True\<rparr>)"
    by blast
  have "update nested_store (Partial ?p)
       = (Inr (), nested_store\<lparr>data := JObj [(''a'', JObj [(''y'', JNum (Fin 3))]), (''b'', JNum (Fin 2))],
                               dirty := True\<rparr>)"
    using i by (simp add: update_def apply_updater_def spread_merge_def d define_all_def)
  with i 2 3 mg show ?thesis by simp
qed

lemma load_v1_eq: "load_v1 rt io s files = load rt io s files"
  by (auto simp: load_v1_def load_def load_v1_read_def readOrCreateDefault_def Let_def
        writeAtomic_v1_eq fs_readFile_def
      split: sum.splits prod.splits option.splits)

lemma save_v1_eq: "save_v1 rt io s files = save rt io s files"
  by (simp add: save_v1_def save_def writeAtomic_v1_eq)

lemma update_v1_eq: "update_v1 s u = update s u"
  by (simp add: update_v1_def update_def)

lemma reload_v1_same: "same_outcome (reload_v1 rt io s files) (reload rt io s files)"
  by (auto simp: same_outcome_def reload_v1_def reload_def split: sum.splits)

lemma updateAndSave_v1_eq:
  "cloneable (data s) \<Longrightarrow> updateAndSave_v1 rt io s u files = updateAndSave rt io s u files"
  by (auto simp: updateAndSave_v1_def updateAndSave_def updateAndSave_interleaved_def
        updateAndSave_v1_try_def updateAndSave_try_def after_updater_Nil
        Let_def writeAtomic_v1_eq structuredClone_def
      split: sum.splits prod.splits)

text \<open>
  Claim C10, as the source has it. The two classes agree on \<^verbatim>\<open>load\<close>, \<^verbatim>\<open>save\<close> and
  \<^verbatim>\<open>update\<close> in outcome, error and resulting state; on \<^verbatim>\<open>reload\<close> they agree in success
  or failure and in the resulting state (the error for a missing file differs); on
  \<^verbatim>\<open>updateAndSave\<close> they agree whenever the document before the call can be cloned.
\<close>

theorem C10_versions_equivalent_amended:
  "load_v1 rt io s files = load rt io s files
   \<and> same_outcome (reload_v1 rt io s files) (reload rt io s files)
   \<and> save_v1 rt io s files = save rt io s files
   \<and> update_v1 s u = update s u
   \<and> (cloneable (data s) \<longrightarrow> updateAndSave_v1 rt io s u files = updateAndSave rt io s u files)"
  using load_v1_eq reload_v1_same save_v1_eq update_v1_eq updateAndSave_v1_eq by blast

text \<open>
  The theorem at a document that can be cloned, and the two errors of \<^verbatim>\<open>reload\<close> for a
  missing file.
\<close>

theorem C10_versions_equivalent_amended_witness:
  "cloneable (data dirty_store)
   \<and> updateAndSave_v1 sample_rt sync_fails dirty_store (Mutator throwing_mutator) old_files
       = updateAndSave sample_rt sync_fails dirty_store (Mutator throwing_mutator) old_files
   \<and> reload_v1 sample_rt no_faults sample_store Map.empty = (Inl (SystemError ''ENOENT''), sample_store, Map.empty)
   \<and> reload sample_rt no_faults sample_store Map.empty
       = (Inl (FileMissing ''data/ids.json'' (SystemError ''ENOENT'')), sample_store, Map.empty)"
proof -
  have c: "cloneable (data dirty_store)" by (simp add: dirty_store_def)
  have i: "initialized sample_store" "filePath sample_store = ''data/ids.json''"
    by (simp_all add: sample_store_def)
  have r1: "reload_v1 sample_rt no_faults sample_store Map.empty = (Inl (SystemError ''ENOENT''), sample_store, Map.empty)"
    using i by (simp add: reload_v1_def fs_readFile_def no_faults_def)
  have r2: "reload sample_rt no_faults sample_store Map.empty
       = (Inl (FileMissing ''data/ids.json'' (SystemError ''ENOENT'')), sample_store, Map.empty)"
    using i by (simp add: reload_def fs_readFile_def no_faults_def)
  from C10_versions_equivalent_amended[of sample_rt sync_fails dirty_store old_files "Mutator throwing_mutator"] c
  show ?thesis using r1 r2 by simp
qed

text \<open>
  Claim C10 as worded fails where the document holds a function, \<^verbatim>\<open>{f: function}\<close>:
  \<^verbatim>\<open>updateAndSave({})\<close> of the earlier class resolves, that of the later class rejects
  when it clones the backup.
\<close>

theorem C10_backup_clone_counterexample:
  "fst (updateAndSave_v1 sample_rt no_faults callback_store (Partial (JObj [])) old_files) = Inr ()
   \<and> fst (updateAndSave sample_rt no_faults callback_store (Partial (JObj [])) old_files) = Inl DataCloneError"
proof -
  have i: "initialized callback_store" "data callback_store = JObj [(''f'', JFunction)]"
    "filePath callback_store = ''data/ids.json''"
    by (simp_all add: callback_store_def sample_store_def)
  have a: "apply_updater (JObj [(''f'', JFunction)]) (Partial (JObj [])) = Inr (JObj [(''f'', JFunction)])"
    by (simp add: apply_updater_def spread_merge_def define_all_def)
  have o: "open_err no_faults = None" "write_err no_faults = None" "sync_err no_faults = None"
    "close_err no_faults = None" "rename_err no_faults = None"
    by (simp_all add: no_faults_def)
  have st: "json_stringify sample_rt (JObj [(''f'', JFunction)]) = Inr ''{}''"
    by (simp add: sample_rt_def)
  note w = writeAtomic_success[OF o(1) st o(2-5), of "''data/ids.json''" old_files]
  have 1: "fst (updateAndSave_v1 sample_rt no_faults callback_store (Partial (JObj [])) old_files) = Inr ()"
    by (simp add: updateAndSave_v1_def updateAndSave_v1_try_def i a Let_def writeAtomic_v1_eq w)
  have 2: "fst (updateAndSave sample_rt no_faults callback_store (Partial (JObj [])) old_files) = Inl DataCloneError"
    by (simp add: updateAndSave_def updateAndSave_interleaved_def i structuredClone_def)
  show ?thesis using 1 2 by simp
qed

section \<open>The nested path accessor: proofs\<close>



lemma is_container_iff: "is_container v \<longleftrightarrow> \<not> nullish v \<and> typeof v = ''object''"
  by (cases v) auto

lemma get_after_set: "set_prop c n v = Inr c' \<Longrightarrow> get_prop c' n = Inr v"
  by (cases c) (auto simp: update_conv' nth_append split: option.splits if_splits)

lemma set_after_set: "set_prop c n v = Inr c' \<Longrightarrow> \<exists>c''. set_prop c' n w = Inr c''"
  by (cases c) (auto simp: update_conv' split: option.splits if_splits)

lemma set_prop_container: "set_prop c n v = Inr c' \<Longrightarrow> is_container c'"
  by (cases c) (auto split: option.splits if_splits)

lemma set_where_missing:
  "get_prop c n = Inr v \<Longrightarrow> nullish v \<Longrightarrow> \<exists>c'. set_prop c n x = Inr c'"
  by (cases c) (auto simp: inherited_of_object_def inherited_of_array_def split: option.splits if_splits)

lemma set_where_container:
  "get_prop c n = Inr v \<Longrightarrow> is_container v \<Longrightarrow> \<exists>c'. set_prop c n x = Inr c'"
  by (cases c) (auto simp: inherited_of_object_def inherited_of_array_def split: option.splits if_splits)


lemma number_name_last: "\<exists>d<10. last (show_nat n) = digit_char d"
  by (subst show_nat.simps) (auto intro: exI[of _ "n mod 10"])

lemma show_nat_not_Nil: "show_nat n \<noteq> []"
  by (subst show_nat.simps) auto

lemma digit_char_code: "d < 10 \<Longrightarrow> (of_char (digit_char d) :: nat) = 48 + d"
  by (simp add: digit_char_def)

lemma digit_char_neq: "d < 10 \<Longrightarrow> digit_char d \<noteq> CHR ''h'' \<and> digit_char d \<noteq> CHR ''_''"
proof (intro conjI notI)
  assume d: "d < 10" and e: "digit_char d = CHR ''h''"
  have "(of_char (digit_char d) :: nat) = 104" unfolding e by simp
  with digit_char_code[OF d] show False using d by arith
next
  assume d: "d < 10" and e: "digit_char d = CHR ''_''"
  have "(of_char (digit_char d) :: nat) = 95" unfolding e by simp
  with digit_char_code[OF d] show False using d by arith
qed

lemma number_name_special:
  "number_to_string (Fin n) \<noteq> ''length'' \<and> number_to_string (Fin n) \<noteq> ''__proto__''"
proof -
  have l: "\<And>m. last (show_nat m) \<noteq> CHR ''h'' \<and> last (show_nat m) \<noteq> CHR ''_''"
    using number_name_last digit_char_neq by metis
  have "last (number_to_string (Fin n)) \<noteq> CHR ''h'' \<and> last (number_to_string (Fin n)) \<noteq> CHR ''_''"
    using l show_nat_not_Nil by simp
  then show ?thesis by auto
qed

lemma set_number_on_array:
  "\<exists>c'. set_prop (JArr xs ps) (number_to_string (Fin n)) v = Inr c'"
  using number_name_special[of n] by (auto split: option.splits)

lemma step_facts:
  "setAtPath_step keys i cur = Inr (cur1, nxt) \<Longrightarrow>
     get_prop cur1 (prop_name (keys ! i)) = Inr nxt \<and> is_container nxt"
  by (auto simp: setAtPath_step_def Let_def is_container_iff split: sum.splits if_splits)

lemma step_agree:
  assumes "j < i" "i < length keys"
  shows "setAtPath_step (take (Suc i) keys) j cur = setAtPath_step keys j cur"
proof -
  have "min (j + 1) (Suc i) = j + 1" using assms by simp
  then have "take (j + 1) (take (Suc i) keys) = take (j + 1) keys" by (simp only: take_take)
  moreover have "take (Suc i) keys ! j = keys ! j" "take (Suc i) keys ! (j + 1) = keys ! (j + 1)"
    using assms by simp_all
  ultimately show ?thesis unfolding setAtPath_step_def by (simp only:)
qed

lemma reached_agree:
  assumes "i < length keys" "j \<le> i"
  shows "reached (take (Suc i) keys) j root = reached keys j root"
  using assms(2)
proof (induction j)
  case 0
  then show ?case by simp
next
  case (Suc j)
  then have "j < i" by simp
  with Suc assms(1) show ?case by (simp add: step_agree cong: sum.case_cong)
qed

lemma failure_propagates:
  "i < length keys \<Longrightarrow> reached keys i root = Inr c \<Longrightarrow>
     setAtPath_from keys v i c = Inl e \<Longrightarrow> setAtPath_from keys v 0 root = Inl e"
proof (induction i arbitrary: c e)
  case 0
  then show ?case by simp
next
  case (Suc i)
  from Suc.prems(2) obtain c0 cur1 where c0: "reached keys i root = Inr c0"
    "setAtPath_step keys i c0 = Inr (cur1, c)"
    by (auto split: sum.splits)
  have "setAtPath_from keys v i c0 = Inl e"
    using Suc.prems(1,3) c0(2) by (subst setAtPath_from.simps) simp
  with Suc.IH[OF _ c0(1)] Suc.prems(1) show ?case by simp
qed

lemma success_propagates:
  "i < length keys \<Longrightarrow> reached keys i root = Inr c \<Longrightarrow>
     setAtPath_from keys v i c = Inr c' \<Longrightarrow> \<exists>r. setAtPath_from keys v 0 root = Inr r"
proof (induction i arbitrary: c c')
  case 0
  then show ?case by simp
next
  case (Suc i)
  from Suc.prems(2) obtain c0 cur1 where c0: "reached keys i root = Inr c0"
    "setAtPath_step keys i c0 = Inr (cur1, c)"
    by (auto split: sum.splits)
  from step_facts[OF c0(2)] set_where_container obtain c0' where
    "set_prop cur1 (prop_name (keys ! i)) c' = Inr c0'" by blast
  then have "setAtPath_from keys v i c0 = Inr c0'"
    using Suc.prems(1,3) c0(2) by (subst setAtPath_from.simps) simp
  with Suc.IH[OF _ c0(1)] Suc.prems(1) show ?case by simp
qed


lemma result_container: "setAtPath_from keys v i c = Inr c' \<Longrightarrow> is_container c'"
  by (subst (asm) setAtPath_from.simps)
     (auto split: if_splits sum.splits prod.splits dest: set_prop_container)

lemma step_on_container:
  "get_prop c (prop_name (keys ! i)) = Inr v \<Longrightarrow> is_container v \<Longrightarrow>
     setAtPath_step keys i c = Inr (c, v)"
  by (auto simp: setAtPath_step_def Let_def is_container_iff)

lemma second_call:
  assumes m: "m + 2 = length keys" and num: "is_number_key (keys ! (m + 1))"
  shows "j \<le> m \<Longrightarrow> setAtPath_from (take (Suc m) keys) (JArr [] []) j cur = Inr cur' \<Longrightarrow>
           \<exists>r. setAtPath_from keys v j cur' = Inr r"
proof (induction "m - j" arbitrary: j cur cur')
  case 0
  then have jm: "j = m" by simp
  let ?P = "take (Suc m) keys"
  have lp: "length ?P = Suc m" using m by simp
  have last: "?P ! (length ?P - 1) = keys ! m" using m by simp
  have pn: "?P \<noteq> []" using m by auto
  have c1: "\<not> (m + 1 < length ?P)" using lp by simp
  have "setAtPath_from ?P (JArr [] []) m cur = set_prop cur (prop_name (keys ! m)) (JArr [] [])"
    by (subst setAtPath_from.simps) (simp only: c1 pn if_False last)
  with 0(3) have s: "set_prop cur (prop_name (keys ! m)) (JArr [] []) = Inr cur'"
    unfolding jm by simp
  from get_after_set[OF s] have g: "get_prop cur' (prop_name (keys ! m)) = Inr (JArr [] [])" .
  have st: "setAtPath_step keys m cur' = Inr (cur', JArr [] [])"
    by (rule step_on_container[OF g]) simp
  obtain n where n: "keys ! (m + 1) = KNum n" using num by (cases "keys ! (m + 1)") auto
  have "length keys - 1 = m + 1" using m by simp
  then have lk: "keys ! (length keys - 1) = KNum n" using n by simp
  from set_number_on_array[of "[]" "[]" n v] obtain a' where
    a': "set_prop (JArr [] []) (number_to_string (Fin n)) v = Inr a'" by blast
  have kn: "keys \<noteq> []" using m by auto
  have r1: "setAtPath_from keys v (m + 1) (JArr [] []) = Inr a'"
    using m a' kn lk by (subst setAtPath_from.simps) simp
  from set_after_set[OF s] obtain r where r: "set_prop cur' (prop_name (keys ! m)) a' = Inr r" by blast
  have "setAtPath_from keys v m cur' = Inr r"
    using m st r1 r by (subst setAtPath_from.simps) simp
  then show ?case unfolding jm by blast
next
  case (Suc d)
  then have jm: "j < m" by simp
  let ?P = "take (Suc m) keys"
  have mk: "m < length keys" using m by simp
  have jl: "j + 1 < length ?P" using jm m by simp
  have pj: "?P ! j = keys ! j" using jm by simp
  from Suc.prems(2) obtain cur1 nxt nxt' where
    st: "setAtPath_step keys j cur = Inr (cur1, nxt)" and
    rc: "setAtPath_from ?P (JArr [] []) (j + 1) nxt = Inr nxt'" and
    wb: "set_prop cur1 (prop_name (keys ! j)) nxt' = Inr cur'"
    using jl pj
    by (subst (asm) setAtPath_from.simps)
       (auto simp: step_agree[OF jm mk] simp del: take_eq_Nil split: sum.splits prod.splits if_splits)
  have "d = m - (j + 1)" using Suc(2) by simp
  from Suc(1)[OF this _ rc] jm obtain r' where r': "setAtPath_from keys v (j + 1) nxt' = Inr r'"
    by auto
  from get_after_set[OF wb] have g: "get_prop cur' (prop_name (keys ! j)) = Inr nxt'" .
  have st2: "setAtPath_step keys j cur' = Inr (cur', nxt')"
    by (rule step_on_container[OF g]) (rule result_container[OF rc])
  from set_after_set[OF wb] obtain r where r: "set_prop cur' (prop_name (keys ! j)) r' = Inr r" by blast
  have "setAtPath_from keys v j cur' = Inr r"
    using jm m st2 r' r by (subst setAtPath_from.simps) simp
  then show ?case by blast
qed

lemma update_list_all:
  "list_all (\<lambda>p. P (snd p)) ps \<Longrightarrow> P v \<Longrightarrow> list_all (\<lambda>p. P (snd p)) (AList.update k v ps)"
  by (induction ps) auto

lemma list_update_all: "list_all P xs \<Longrightarrow> P v \<Longrightarrow> list_all P (xs[i := v])"
  by (induction xs arbitrary: i) (auto split: nat.splits)

lemma replicate_all: "P v \<Longrightarrow> list_all P (replicate n v)"
  by (induction n) auto

lemma set_prop_cloneable:
  "cloneable c \<Longrightarrow> cloneable v \<Longrightarrow> set_prop c n v = Inr c' \<Longrightarrow> cloneable c'"
  by (cases c)
     (auto simp: update_list_all list_update_all replicate_all split: option.splits if_splits)

lemma get_prop_cloneable:
  "cloneable c \<Longrightarrow> get_prop c n = Inr v \<Longrightarrow> is_container v \<Longrightarrow> cloneable v"
  by (cases c)
     (auto simp: list_all_iff inherited_of_object_def inherited_of_array_def
           split: option.splits if_splits dest!: map_of_SomeD)

lemma step_cloneable:
  assumes "cloneable c" "setAtPath_step keys i c = Inr (cur1, nxt)"
  shows "cloneable cur1 \<and> cloneable nxt"
proof -
  from step_facts[OF assms(2)] have g: "get_prop cur1 (prop_name (keys ! i)) = Inr nxt" "is_container nxt"
    by simp_all
  have "cloneable cur1"
    using assms
    by (auto simp: setAtPath_step_def Let_def split: sum.splits if_splits
             dest: set_prop_cloneable[rotated 2])
  with get_prop_cloneable[OF _ g] show ?thesis by simp
qed

lemma setAtPath_from_cloneable:
  "cloneable c \<Longrightarrow> cloneable v \<Longrightarrow> setAtPath_from keys v i c = Inr c' \<Longrightarrow> cloneable c'"
proof (induction keys v i c arbitrary: c' rule: setAtPath_from.induct)
  case (1 keys v i c)
  show ?case
  proof (cases "i + 1 < length keys")
    case True
    from 1(4) True obtain cur1 nxt nxt' where
      st: "setAtPath_step keys i c = Inr (cur1, nxt)" and
      rc: "setAtPath_from keys v (i + 1) nxt = Inr nxt'" and
      wb: "set_prop cur1 (prop_name (keys ! i)) nxt' = Inr c'"
      by (subst (asm) setAtPath_from.simps) (auto split: sum.splits prod.splits)
    from step_cloneable[OF 1(2) st] have c1: "cloneable cur1" "cloneable nxt" by simp_all
    from 1(1)[OF True st refl c1(2) 1(3) rc] have "cloneable nxt'" .
    from set_prop_cloneable[OF c1(1) this wb] show ?thesis .
  next
    case False
    with 1(4) have "set_prop c ''undefined'' v = Inr c' \<or> set_prop c (prop_name (keys ! (length keys - 1))) v = Inr c'"
      by (subst (asm) setAtPath_from.simps) (auto split: if_splits)
    with set_prop_cloneable[OF 1(2,3)] show ?thesis by blast
  qed
qed

lemma validateKeys_from_take:
  "validateKeys_from i raw = Inr keys \<Longrightarrow> validateKeys_from j (take n raw) = Inr (take n keys)"
proof (induction i raw arbitrary: j n keys rule: validateKeys_from.induct)
  case (1 i)
  then show ?case by simp
next
  case (2 i x raw)
  then show ?case by (cases n) (auto split: sum.splits)
next
  case (4 i s raw)
  then show ?case by (cases n) (auto split: sum.splits)
qed simp_all

lemma validateKeys_from_length:
  "validateKeys_from i raw = Inr keys \<Longrightarrow> length keys = length raw"
  by (induction i raw arbitrary: keys rule: validateKeys_from.induct) (auto split: sum.splits)


lemma setPath_mutator_fails:
  assumes "initialized s" "cloneable (data s)" "validateKeys raw = Inr keys" "keys \<noteq> []"
    and "setAtPath (data s) keys v = Inl e"
  shows "setPath s raw v = (Inl e, s)"
    and "setPathAndSave rt io s raw v files = (Inl e, s, files)"
  using assms
  by (simp_all add: setPath_def setPathAndSave_def update_def updateAndSave_def
        updateAndSave_interleaved_def updateAndSave_try_def after_updater_def
        apply_updater_def structuredClone_def)

lemma setPath_mutator_succeeds:
  assumes "initialized s" "cloneable (data s)" "validateKeys raw = Inr keys" "keys \<noteq> []"
    and "setAtPath (data s) keys v = Inr d"
  shows "setPath s raw v = (Inr (), s\<lparr>data := d, dirty := True\<rparr>)"
  using assms
  by (simp add: setPath_def update_def apply_updater_def structuredClone_def)

lemma setPath_not_cloneable:
  assumes "initialized s" "\<not> cloneable (data s)" "validateKeys raw = Inr keys" "keys \<noteq> []"
  shows "setPath s raw v = (Inl DataCloneError, s)"
    and "setPathAndSave rt io s raw v files = (Inl DataCloneError, s, files)"
  using assms
  by (simp_all add: setPath_def setPathAndSave_def update_def updateAndSave_def
        updateAndSave_interleaved_def apply_updater_def structuredClone_def)

lemma setPath_not_initialized:
  assumes "\<not> initialized s" "validateKeys raw = Inr keys" "keys \<noteq> []"
  shows "setPath s raw v = (Inl NotInitialized, s)"
    and "setPathAndSave rt io s raw v files = (Inl NotInitialized, s, files)"
  using assms
  by (simp_all add: setPath_def setPathAndSave_def update_def updateAndSave_def
        updateAndSave_interleaved_def)

lemma refused_at:
  assumes "i + 1 < length keys" "get_prop c (prop_name (keys ! i)) = Inr existing" "nullish existing"
    "is_number_key (keys ! (i + 1))"
  shows "setAtPath_from keys v i c = Inl (ArrayAutoCreateRefused (take (i + 1) keys))"
  using assms by (subst setAtPath_from.simps) (simp add: setAtPath_step_def)

lemma traversal_at:
  assumes "i + 1 < length keys" "get_prop c (prop_name (keys ! i)) = Inr existing" "\<not> nullish existing"
    "typeof existing \<noteq> ''object''"
  shows "setAtPath_from keys v i c = Inl (TraversalFailure (take (i + 1) keys))"
  using assms by (subst setAtPath_from.simps) (simp add: setAtPath_step_def)

lemma init_then_set:
  assumes "i + 1 < length keys"
    and "reached keys i d = Inr c"
    and "get_prop c (prop_name (keys ! i)) = Inr existing" and "nullish existing"
    and "is_number_key (keys ! (i + 1))"
  shows "\<exists>d1. setAtPath d (take (i + 1) keys) (JArr [] []) = Inr d1
            \<and> (i + 2 = length keys \<longrightarrow> (\<exists>r. setAtPath d1 keys v = Inr r))"
proof -
  let ?P = "take (Suc i) keys"
  have kn: "keys \<noteq> []" using assms(1) by auto
  have il: "i < length keys" using assms(1) by simp
  have pn: "?P \<noteq> []" using kn by simp
  have lp: "length ?P = Suc i" using il by simp
  have rp: "reached ?P i d = Inr c" using reached_agree[OF il, of i] assms(2) by simp
  from set_where_missing[OF assms(3,4)] obtain c' where
    c': "set_prop c (prop_name (keys ! i)) (JArr [] []) = Inr c'" by blast
  have c1: "\<not> (i + 1 < length ?P)" using lp by simp
  have lst: "?P ! (length ?P - 1) = keys ! i" using lp by simp
  have "setAtPath_from ?P (JArr [] []) i c = set_prop c (prop_name (keys ! i)) (JArr [] [])"
    by (subst setAtPath_from.simps) (simp only: c1 pn if_False lst)
  with c' have sc: "setAtPath_from ?P (JArr [] []) i c = Inr c'" by simp
  have ip: "i < length ?P" using lp by simp
  from success_propagates[OF ip rp sc] obtain d1 where
    d1: "setAtPath_from ?P (JArr [] []) 0 d = Inr d1" by blast
  then have sd: "setAtPath d (take (i + 1) keys) (JArr [] []) = Inr d1" by (simp add: setAtPath_def)
  have "i + 2 = length keys \<longrightarrow> (\<exists>r. setAtPath d1 keys v = Inr r)"
  proof
    assume m: "i + 2 = length keys"
    from second_call[OF m assms(5) _ d1, of v] obtain r where "setAtPath_from keys v 0 d1 = Inr r"
      by auto
    then show "\<exists>r. setAtPath d1 keys v = Inr r" by (simp add: setAtPath_def)
  qed
  with sd show ?thesis by blast
qed

text \<open>
  Claim C7, as the source has it. Numeric keys are the numbers of the model: integers
  from \<open>- 2^53\<close> to \<open>2^53 - 1\<close>. Take any document \<open>d\<close> and a key sequence that passes
  validation. Suppose the walk of \<^verbatim>\<open>#setAtPath\<close> from \<open>d\<close> reaches turn \<open>i\<close> of the loop
  without an error, the property named by key \<open>i\<close> reads as \<^verbatim>\<open>null\<close> or \<^verbatim>\<open>undefined\<close>
  there, and the next key is a number. Then:

  \<^item> \<^verbatim>\<open>#setAtPath\<close> on \<open>d\<close> throws the error that refuses to create an array, whose
    message holds the formatted path up to key \<open>i\<close> and the call
    \<^verbatim>\<open>setPath([...], [])\<close> on those keys;
  \<^item> \<^verbatim>\<open>#setAtPath\<close> on \<open>d\<close> with those keys and an empty array returns; on the document
    it leaves, when the numeric key is the last key of the path, \<^verbatim>\<open>#setAtPath\<close> with
    the whole path returns;
  \<^item> on an initialized store that holds \<open>d\<close>, when \<open>d\<close> can be cloned: \<^verbatim>\<open>setPath\<close> and
    \<^verbatim>\<open>setPathAndSave\<close> fail with that error and leave the store and the files as
    before, so no sequence was created; \<^verbatim>\<open>setPath\<close> on the keys up to \<open>i\<close> with an empty
    array succeeds; and after it, when the numeric key is the last key of the path, the
    first call succeeds;
  \<^item> on an initialized store that holds \<open>d\<close>, when \<open>d\<close> cannot be cloned (it holds a
    function): both calls fail with the error of \<^verbatim>\<open>structuredClone\<close>, before the walk;
  \<^item> on a store that is not initialized: both calls fail with the error of
    \<^verbatim>\<open>#assertInitialized\<close>.
\<close>

theorem C7_array_guard_amended:
  assumes "validateKeys raw = Inr keys"
    and "i + 1 < length keys"
    and "reached keys i d = Inr c"
    and "get_prop c (prop_name (keys ! i)) = Inr existing" and "nullish existing"
    and "is_number_key (keys ! (i + 1))"
  shows "setAtPath d keys v = Inl (ArrayAutoCreateRefused (take (i + 1) keys))
       \<and> message (ArrayAutoCreateRefused (take (i + 1) keys)) =
            ''Cannot auto-create array at '' @ [CHR 0x27] @ formatPath (take (i + 1) keys) @ [CHR 0x27]
              @ ''. Initialize it first with setPath([''
              @ join '', '' (map json_of_key (take (i + 1) keys)) @ ''], [])''
       \<and> (\<exists>d1. setAtPath d (take (i + 1) keys) (JArr [] []) = Inr d1
              \<and> (i + 2 = length keys \<longrightarrow> (\<exists>r. setAtPath d1 keys v = Inr r)))
       \<and> (\<forall>s. initialized s \<and> data s = d \<and> cloneable d \<longrightarrow>
              setPath s raw v = (Inl (ArrayAutoCreateRefused (take (i + 1) keys)), s)
            \<and> setPathAndSave rt io s raw v files
                = (Inl (ArrayAutoCreateRefused (take (i + 1) keys)), s, files)
            \<and> (\<exists>s1. setPath s (take (i + 1) raw) (JArr [] []) = (Inr (), s1)
                  \<and> (i + 2 = length keys \<longrightarrow> (\<exists>s2. setPath s1 raw v = (Inr (), s2)))))
       \<and> (\<forall>s. initialized s \<and> data s = d \<and> \<not> cloneable d \<longrightarrow>
              setPath s raw v = (Inl DataCloneError, s)
            \<and> setPathAndSave rt io s raw v files = (Inl DataCloneError, s, files))
       \<and> (\<forall>s. \<not> initialized s \<longrightarrow>
              setPath s raw v = (Inl NotInitialized, s)
            \<and> setPathAndSave rt io s raw v files = (Inl NotInitialized, s, files))"
proof -
  let ?P = "take (Suc i) keys"
  let ?e = "ArrayAutoCreateRefused (take (i + 1) keys)"
  have kn: "keys \<noteq> []" using assms(2) by auto
  have il: "i < length keys" using assms(2) by simp
  from refused_at[OF assms(2,4,5,6)]
  have "setAtPath_from keys v i c = Inl ?e" .
  from failure_propagates[OF il assms(3) this]
  have f: "setAtPath d keys v = Inl ?e" by (simp add: setAtPath_def)
  have m: "message ?e =
            ''Cannot auto-create array at '' @ [CHR 0x27] @ formatPath (take (i + 1) keys) @ [CHR 0x27]
              @ ''. Initialize it first with setPath([''
              @ join '', '' (map json_of_key (take (i + 1) keys)) @ ''], [])''"
    by simp
  note ini = init_then_set[OF assms(2-6), of v]
  have vp: "validateKeys (take (i + 1) raw) = Inr ?P"
    using assms(1) validateKeys_from_take[of 0 raw keys 0 "Suc i"] by (simp add: validateKeys_def)
  have pn: "?P \<noteq> []" using kn by simp
  have st: "\<forall>s. initialized s \<and> data s = d \<and> cloneable d \<longrightarrow>
              setPath s raw v = (Inl ?e, s)
            \<and> setPathAndSave rt io s raw v files = (Inl ?e, s, files)
            \<and> (\<exists>s1. setPath s (take (i + 1) raw) (JArr [] []) = (Inr (), s1)
                  \<and> (i + 2 = length keys \<longrightarrow> (\<exists>s2. setPath s1 raw v = (Inr (), s2))))"
  proof (intro allI impI)
    fix s :: store
    assume a: "initialized s \<and> data s = d \<and> cloneable d"
    then have a1: "initialized s" and a2: "cloneable (data s)" and a3: "data s = d" by simp_all
    from f a3 have f': "setAtPath (data s) keys v = Inl ?e" by simp
    note 1 = setPath_mutator_fails[OF a1 a2 assms(1) kn f']
    from ini obtain d1 where
      sd: "setAtPath d (take (i + 1) keys) (JArr [] []) = Inr d1"
      and nx: "i + 2 = length keys \<longrightarrow> (\<exists>r. setAtPath d1 keys v = Inr r)" by blast
    from sd a3 have sd': "setAtPath (data s) ?P (JArr [] []) = Inr d1" by simp
    let ?s1 = "s\<lparr>data := d1, dirty := True\<rparr>"
    from setPath_mutator_succeeds[OF a1 a2 vp pn sd']
    have i1: "setPath s (take (i + 1) raw) (JArr [] []) = (Inr (), ?s1)" by simp
    have "cloneable d1"
      using setAtPath_from_cloneable[OF a2, of "JArr [] []" ?P 0 d1] sd' by (simp add: setAtPath_def)
    then have cl: "cloneable (data ?s1)" by simp
    have 2: "i + 2 = length keys \<longrightarrow> (\<exists>s2. setPath ?s1 raw v = (Inr (), s2))"
    proof
      assume "i + 2 = length keys"
      with nx obtain r where "setAtPath d1 keys v = Inr r" by blast
      then have "setAtPath (data ?s1) keys v = Inr r" by simp
      from setPath_mutator_succeeds[OF _ cl assms(1) kn this] a1
      show "\<exists>s2. setPath ?s1 raw v = (Inr (), s2)" by simp
    qed
    from 1 i1 2
    show "setPath s raw v = (Inl ?e, s)
            \<and> setPathAndSave rt io s raw v files = (Inl ?e, s, files)
            \<and> (\<exists>s1. setPath s (take (i + 1) raw) (JArr [] []) = (Inr (), s1)
                  \<and> (i + 2 = length keys \<longrightarrow> (\<exists>s2. setPath s1 raw v = (Inr (), s2))))"
      by blast
  qed
  have nc: "\<forall>s. initialized s \<and> data s = d \<and> \<not> cloneable d \<longrightarrow>
              setPath s raw v = (Inl DataCloneError, s)
            \<and> setPathAndSave rt io s raw v files = (Inl DataCloneError, s, files)"
    using setPath_not_cloneable[OF _ _ assms(1) kn] by simp
  have ni: "\<forall>s. \<not> initialized s \<longrightarrow>
              setPath s raw v = (Inl NotInitialized, s)
            \<and> setPathAndSave rt io s raw v files = (Inl NotInitialized, s, files)"
    using setPath_not_initialized[OF _ assms(1) kn] by simp
  from f m ini st nc ni show ?thesis by (intro conjI)
qed

text \<open>
  Claim C8, as the source has it. Numeric keys are the numbers of the model: integers
  from \<open>- 2^53\<close> to \<open>2^53 - 1\<close>. Take any document \<open>d\<close> and a key sequence that passes
  validation. Suppose the walk of \<^verbatim>\<open>#setAtPath\<close> from \<open>d\<close> reaches turn \<open>i\<close> of the loop
  without an error and the property named by key \<open>i\<close> reads there as a value that is
  neither \<^verbatim>\<open>null\<close> nor \<^verbatim>\<open>undefined\<close> and whose \<^verbatim>\<open>typeof\<close> is not \<^verbatim>\<open>"object"\<close> (a boolean,
  a number, a string, a function). Then:

  \<^item> \<^verbatim>\<open>#setAtPath\<close> on \<open>d\<close> throws the traversal error, whose message holds the formatted
    path up to key \<open>i\<close>;
  \<^item> on an initialized store that holds \<open>d\<close>, when \<open>d\<close> can be cloned: \<^verbatim>\<open>setPath\<close> and
    \<^verbatim>\<open>setPathAndSave\<close> fail with that error and leave the store and the files as before;
  \<^item> on an initialized store that holds \<open>d\<close>, when \<open>d\<close> cannot be cloned (it holds a
    function): both calls fail with the error of \<^verbatim>\<open>structuredClone\<close>, before the walk;
  \<^item> on a store that is not initialized: both calls fail with the error of
    \<^verbatim>\<open>#assertInitialized\<close>.

  A value stored as \<^verbatim>\<open>null\<close> is not among these: the walk takes it for a missing
  container.
\<close>

theorem C8_traversal_amended:
  assumes "validateKeys raw = Inr keys"
    and "i + 1 < length keys"
    and "reached keys i d = Inr c"
    and "get_prop c (prop_name (keys ! i)) = Inr existing"
    and "\<not> nullish existing" and "typeof existing \<noteq> ''object''"
  shows "setAtPath d keys v = Inl (TraversalFailure (take (i + 1) keys))
       \<and> message (TraversalFailure (take (i + 1) keys)) =
            ''Cannot traverse through non-object at '' @ [CHR 0x27] @ formatPath (take (i + 1) keys)
              @ [CHR 0x27]
       \<and> (\<forall>s. initialized s \<and> data s = d \<and> cloneable d \<longrightarrow>
              setPath s raw v = (Inl (TraversalFailure (take (i + 1) keys)), s)
            \<and> setPathAndSave rt io s raw v files
                = (Inl (TraversalFailure (take (i + 1) keys)), s, files))
       \<and> (\<forall>s. initialized s \<and> data s = d \<and> \<not> cloneable d \<longrightarrow>
              setPath s raw v = (Inl DataCloneError, s)
            \<and> setPathAndSave rt io s raw v files = (Inl DataCloneError, s, files))
       \<and> (\<forall>s. \<not> initialized s \<longrightarrow>
              setPath s raw v = (Inl NotInitialized, s)
            \<and> setPathAndSave rt io s raw v files = (Inl NotInitialized, s, files))"
proof -
  let ?e = "TraversalFailure (take (i + 1) keys)"
  have kn: "keys \<noteq> []" using assms(2) by auto
  have il: "i < length keys" using assms(2) by simp
  from traversal_at[OF assms(2,4,5,6)]
  have "setAtPath_from keys v i c = Inl ?e" .
  from failure_propagates[OF il assms(3) this]
  have f: "setAtPath d keys v = Inl ?e" by (simp add: setAtPath_def)
  have m: "message ?e =
            ''Cannot traverse through non-object at '' @ [CHR 0x27] @ formatPath (take (i + 1) keys)
              @ [CHR 0x27]"
    by simp
  have st: "\<forall>s. initialized s \<and> data s = d \<and> cloneable d \<longrightarrow>
              setPath s raw v = (Inl ?e, s)
            \<and> setPathAndSave rt io s raw v files = (Inl ?e, s, files)"
  proof (intro allI impI)
    fix s :: store
    assume a: "initialized s \<and> data s = d \<and> cloneable d"
    then have a1: "initialized s" and a2: "cloneable (data s)" and a3: "data s = d" by simp_all
    from f a3 have f': "setAtPath (data s) keys v = Inl ?e" by simp
    from setPath_mutator_fails[OF a1 a2 assms(1) kn f']
    show "setPath s raw v = (Inl ?e, s) \<and> setPathAndSave rt io s raw v files = (Inl ?e, s, files)"
      by simp
  qed
  have nc: "\<forall>s. initialized s \<and> data s = d \<and> \<not> cloneable d \<longrightarrow>
              setPath s raw v = (Inl DataCloneError, s)
            \<and> setPathAndSave rt io s raw v files = (Inl DataCloneError, s, files)"
    using setPath_not_cloneable[OF _ _ assms(1) kn] by simp
  have ni: "\<forall>s. \<not> initialized s \<longrightarrow>
              setPath s raw v = (Inl NotInitialized, s)
            \<and> setPathAndSave rt io s raw v files = (Inl NotInitialized, s, files)"
    using setPath_not_initialized[OF _ assms(1) kn] by simp
  from f m st nc ni show ?thesis by (intro conjI)
qed

text \<open>
  The theorem at the path \<^verbatim>\<open>['items', 0]\<close>. On the empty document: refused, then
  \<^verbatim>\<open>setPath(['items'], [])\<close>, then accepted with \<^verbatim>\<open>{items: ['x']}\<close>. On the document
  \<^verbatim>\<open>{f: function}\<close> the walk is refused in the same way, and the store fails to clone
  the document. On a store that was not loaded the call fails at once.
\<close>

theorem C7_array_guard_amended_witness:
  "validateKeys [JStr ''items'', JNum (Fin 0)] = Inr [KStr ''items'', KNum 0]
   \<and> get_prop (data sample_store) ''items'' = Inr JUndefined
   \<and> initialized sample_store \<and> cloneable (data sample_store)
   \<and> setAtPath (data sample_store) [KStr ''items'', KNum 0] (JStr ''x'')
        = Inl (ArrayAutoCreateRefused [KStr ''items''])
   \<and> setPath sample_store [JStr ''items'', JNum (Fin 0)] (JStr ''x'')
        = (Inl (ArrayAutoCreateRefused [KStr ''items'']), sample_store)
   \<and> setPathAndSave sample_rt no_faults sample_store [JStr ''items'', JNum (Fin 0)] (JStr ''x'') old_files
        = (Inl (ArrayAutoCreateRefused [KStr ''items'']), sample_store, old_files)
   \<and> message (ArrayAutoCreateRefused [KStr ''items''])
        = ''Cannot auto-create array at '' @ [CHR 0x27] @ ''items'' @ [CHR 0x27]
          @ ''. Initialize it first with setPath(['' @ [CHR 0x22] @ ''items'' @ [CHR 0x22] @ ''], [])''
   \<and> setPath sample_store [JStr ''items''] (JArr [] []) = (Inr (), items_store)
   \<and> setPath items_store [JStr ''items'', JNum (Fin 0)] (JStr ''x'')
        = (Inr (), items_store\<lparr>data := JObj [(''items'', JArr [JStr ''x''] [])]\<rparr>)
   \<and> initialized callback_store \<and> \<not> cloneable (data callback_store)
   \<and> get_prop (data callback_store) ''items'' = Inr JUndefined
   \<and> setAtPath (data callback_store) [KStr ''items'', KNum 0] (JStr ''x'')
        = Inl (ArrayAutoCreateRefused [KStr ''items''])
   \<and> setPath callback_store [JStr ''items'', JNum (Fin 0)] (JStr ''x'')
        = (Inl DataCloneError, callback_store)
   \<and> \<not> initialized fresh_store
   \<and> setPath fresh_store [JStr ''items'', JNum (Fin 0)] (JStr ''x'')
        = (Inl NotInitialized, fresh_store)"
proof -
  let ?raw = "[JStr ''items'', JNum (Fin 0)]"
  let ?keys = "[KStr ''items'', KNum 0]"
  have i: "initialized sample_store" "cloneable (data sample_store)" "data sample_store = JObj []"
    by (simp_all add: sample_store_def)
  have v: "validateKeys ?raw = Inr ?keys" by (simp add: validateKeys_def)
  have v1: "validateKeys [JStr ''items''] = Inr [KStr ''items'']" by (simp add: validateKeys_def)
  have l: "0 + 1 < length ?keys" by simp
  have r: "reached ?keys 0 (data sample_store) = Inr (JObj [])" by (simp add: i)
  have g: "get_prop (JObj []) (prop_name (?keys ! 0)) = Inr JUndefined"
    by (simp add: inherited_of_object_def object_prototype_keys_def)
  have n: "nullish JUndefined" "is_number_key (?keys ! (0 + 1))" by simp_all
  note t = C7_array_guard_amended[OF v l r g n, of "JStr ''x''" sample_rt no_faults old_files]
  from t have 0: "setAtPath (data sample_store) ?keys (JStr ''x'')
        = Inl (ArrayAutoCreateRefused [KStr ''items''])" by simp
  from t have "\<forall>s. initialized s \<and> data s = data sample_store \<and> cloneable (data sample_store) \<longrightarrow>
              setPath s ?raw (JStr ''x'') = (Inl (ArrayAutoCreateRefused [KStr ''items'']), s)
            \<and> setPathAndSave sample_rt no_faults s ?raw (JStr ''x'') old_files
                = (Inl (ArrayAutoCreateRefused [KStr ''items'']), s, old_files)"
    by simp
  with i have 1: "setPath sample_store ?raw (JStr ''x'')
                    = (Inl (ArrayAutoCreateRefused [KStr ''items'']), sample_store)"
    "setPathAndSave sample_rt no_faults sample_store ?raw (JStr ''x'') old_files
                = (Inl (ArrayAutoCreateRefused [KStr ''items'']), sample_store, old_files)"
    by blast+
  have m: "message (ArrayAutoCreateRefused [KStr ''items''])
        = ''Cannot auto-create array at '' @ [CHR 0x27] @ ''items'' @ [CHR 0x27]
          @ ''. Initialize it first with setPath(['' @ [CHR 0x22] @ ''items'' @ [CHR 0x22] @ ''], [])''"
    by code_simp
  have a1: "setAtPath (data sample_store) [KStr ''items''] (JArr [] []) = Inr (JObj [(''items'', JArr [] [])])"
    unfolding i(3) by code_simp
  from setPath_mutator_succeeds[OF i(1,2) v1 _ a1]
  have 2: "setPath sample_store [JStr ''items''] (JArr [] []) = (Inr (), items_store)"
    by (simp add: items_store_def)
  have j: "initialized items_store" "cloneable (data items_store)"
    "data items_store = JObj [(''items'', JArr [] [])]"
    by (simp_all add: items_store_def sample_store_def)
  have a2: "setAtPath (data items_store) ?keys (JStr ''x'') = Inr (JObj [(''items'', JArr [JStr ''x''] [])])"
    unfolding j(3) by code_simp
  from setPath_mutator_succeeds[OF j(1,2) v _ a2]
  have 3: "setPath items_store ?raw (JStr ''x'')
        = (Inr (), items_store\<lparr>data := JObj [(''items'', JArr [JStr ''x''] [])]\<rparr>)"
    by (simp add: items_store_def)
  from g have g': "get_prop (data sample_store) ''items'' = Inr JUndefined" by (simp add: i)
  have k: "initialized callback_store" "\<not> cloneable (data callback_store)"
    "data callback_store = JObj [(''f'', JFunction)]"
    by (simp_all add: callback_store_def sample_store_def)
  have rk: "reached ?keys 0 (data callback_store) = Inr (JObj [(''f'', JFunction)])" by (simp add: k)
  have gk: "get_prop (JObj [(''f'', JFunction)]) (prop_name (?keys ! 0)) = Inr JUndefined"
    by (simp add: inherited_of_object_def object_prototype_keys_def)
  note tk = C7_array_guard_amended[OF v l rk gk n, of "JStr ''x''" sample_rt no_faults old_files]
  from tk have 4: "setAtPath (data callback_store) ?keys (JStr ''x'')
        = Inl (ArrayAutoCreateRefused [KStr ''items''])" by simp
  from tk have "\<forall>s. initialized s \<and> data s = data callback_store \<and> \<not> cloneable (data callback_store) \<longrightarrow>
              setPath s ?raw (JStr ''x'') = (Inl DataCloneError, s)"
    by simp
  with k have 5: "setPath callback_store ?raw (JStr ''x'') = (Inl DataCloneError, callback_store)"
    by blast
  from gk have gk': "get_prop (data callback_store) ''items'' = Inr JUndefined" by (simp add: k)
  have u: "\<not> initialized fresh_store" by (simp add: fresh_store_def sample_store_def)
  from t have "\<forall>s. \<not> initialized s \<longrightarrow> setPath s ?raw (JStr ''x'') = (Inl NotInitialized, s)"
    by simp
  with u have 6: "setPath fresh_store ?raw (JStr ''x'') = (Inl NotInitialized, fresh_store)" by blast
  show ?thesis using i(1,2) v g' 0 1 m 2 3 k(1,2) gk' 4 5 u 6 by simp
qed

text \<open>
  Claim C7 as worded fails for the path \<^verbatim>\<open>['items', 0, 0]\<close> on the empty document: the
  call is refused at \<^verbatim>\<open>items\<close>; after \<^verbatim>\<open>setPath(['items'], [])\<close> the same call is refused
  again, one level down, at \<^verbatim>\<open>items[0]\<close>.
\<close>

theorem C7_nested_index_counterexample:
  "setPath sample_store [JStr ''items'', JNum (Fin 0), JNum (Fin 0)] (JStr ''x'')
        = (Inl (ArrayAutoCreateRefused [KStr ''items'']), sample_store)
   \<and> setPath sample_store [JStr ''items''] (JArr [] []) = (Inr (), items_store)
   \<and> setPath items_store [JStr ''items'', JNum (Fin 0), JNum (Fin 0)] (JStr ''x'')
        = (Inl (ArrayAutoCreateRefused [KStr ''items'', KNum 0]), items_store)"
proof -
  let ?raw = "[JStr ''items'', JNum (Fin 0), JNum (Fin 0)]"
  let ?keys = "[KStr ''items'', KNum 0, KNum 0]"
  have i: "initialized sample_store" "cloneable (data sample_store)" "data sample_store = JObj []"
    by (simp_all add: sample_store_def)
  have j: "initialized items_store" "cloneable (data items_store)"
    "data items_store = JObj [(''items'', JArr [] [])]"
    by (simp_all add: items_store_def sample_store_def)
  have v: "validateKeys ?raw = Inr ?keys" by (simp add: validateKeys_def)
  have v1: "validateKeys [JStr ''items''] = Inr [KStr ''items'']" by (simp add: validateKeys_def)
  have a0: "setAtPath (data sample_store) ?keys (JStr ''x'') = Inl (ArrayAutoCreateRefused [KStr ''items''])"
    unfolding i(3) by code_simp
  have a1: "setAtPath (data sample_store) [KStr ''items''] (JArr [] []) = Inr (JObj [(''items'', JArr [] [])])"
    unfolding i(3) by code_simp
  have a2: "setAtPath (data items_store) ?keys (JStr ''x'') = Inl (ArrayAutoCreateRefused [KStr ''items'', KNum 0])"
    unfolding j(3) by code_simp
  from setPath_mutator_fails(1)[OF i(1,2) v _ a0]
  have 1: "setPath sample_store ?raw (JStr ''x'') = (Inl (ArrayAutoCreateRefused [KStr ''items'']), sample_store)"
    by simp
  from setPath_mutator_succeeds[OF i(1,2) v1 _ a1]
  have 2: "setPath sample_store [JStr ''items''] (JArr [] []) = (Inr (), items_store)"
    by (simp add: items_store_def)
  from setPath_mutator_fails(1)[OF j(1,2) v _ a2]
  have 3: "setPath items_store ?raw (JStr ''x'') = (Inl (ArrayAutoCreateRefused [KStr ''items'', KNum 0]), items_store)"
    by simp
  show ?thesis using 1 2 3 by simp
qed

text \<open>
  The theorem at the path \<^verbatim>\<open>['a', 'b']\<close>. On the document \<^verbatim>\<open>{a: 5}\<close> the walk stops at
  the number. On \<^verbatim>\<open>{a: function}\<close> the walk of \<^verbatim>\<open>#setAtPath\<close> stops at the function,
  and the store fails to clone the document. On \<^verbatim>\<open>{}\<close> and the path
  \<^verbatim>\<open>['toString', 'b']\<close> the walk stops at the method that every object inherits.
\<close>

theorem C8_traversal_amended_witness:
  "validateKeys [JStr ''a'', JStr ''b''] = Inr [KStr ''a'', KStr ''b'']
   \<and> initialized number_store \<and> cloneable (data number_store)
   \<and> get_prop (data number_store) ''a'' = Inr (JNum (Fin 5))
   \<and> setAtPath (data number_store) [KStr ''a'', KStr ''b''] (JNum (Fin 1))
        = Inl (TraversalFailure [KStr ''a''])
   \<and> setPath number_store [JStr ''a'', JStr ''b''] (JNum (Fin 1))
        = (Inl (TraversalFailure [KStr ''a'']), number_store)
   \<and> setPathAndSave sample_rt no_faults number_store [JStr ''a'', JStr ''b''] (JNum (Fin 1)) old_files
        = (Inl (TraversalFailure [KStr ''a'']), number_store, old_files)
   \<and> message (TraversalFailure [KStr ''a''])
        = ''Cannot traverse through non-object at '' @ [CHR 0x27] @ ''a'' @ [CHR 0x27]
   \<and> setAtPath (JObj [(''a'', JFunction)]) [KStr ''a'', KStr ''b''] (JNum (Fin 1))
        = Inl (TraversalFailure [KStr ''a''])
   \<and> \<not> cloneable (JObj [(''a'', JFunction)])
   \<and> setPath (sample_store\<lparr>data := JObj [(''a'', JFunction)]\<rparr>) [JStr ''a'', JStr ''b''] (JNum (Fin 1))
        = (Inl DataCloneError, sample_store\<lparr>data := JObj [(''a'', JFunction)]\<rparr>)
   \<and> validateKeys [JStr ''toString'', JStr ''b''] = Inr [KStr ''toString'', KStr ''b'']
   \<and> get_prop (data sample_store) ''toString'' = Inr JFunction
   \<and> setPath sample_store [JStr ''toString'', JStr ''b''] (JNum (Fin 1))
        = (Inl (TraversalFailure [KStr ''toString'']), sample_store)
   \<and> \<not> initialized fresh_store
   \<and> setPath fresh_store [JStr ''a'', JStr ''b''] (JNum (Fin 1)) = (Inl NotInitialized, fresh_store)"
proof -
  let ?raw = "[JStr ''a'', JStr ''b'']"
  let ?keys = "[KStr ''a'', KStr ''b'']"
  let ?v = "JNum (Fin 1)"
  have i: "initialized number_store" "cloneable (data number_store)"
     "data number_store = JObj [(''a'', JNum (Fin 5))]"
    by (simp_all add: number_store_def sample_store_def)
  have v: "validateKeys ?raw = Inr ?keys" by (simp add: validateKeys_def)
  have l: "0 + 1 < length ?keys" by simp
  have r: "reached ?keys 0 (data number_store) = Inr (JObj [(''a'', JNum (Fin 5))])" by (simp add: i)
  have g: "get_prop (JObj [(''a'', JNum (Fin 5))]) (prop_name (?keys ! 0)) = Inr (JNum (Fin 5))"
    by simp
  have n: "\<not> nullish (JNum (Fin 5))" "typeof (JNum (Fin 5)) \<noteq> ''object''" by simp_all
  note t = C8_traversal_amended[OF v l r g n, of ?v sample_rt no_faults old_files]
  from t have 0: "setAtPath (data number_store) ?keys ?v = Inl (TraversalFailure [KStr ''a''])"
    by simp
  from t have "\<forall>s. initialized s \<and> data s = data number_store \<and> cloneable (data number_store) \<longrightarrow>
              setPath s ?raw ?v = (Inl (TraversalFailure [KStr ''a'']), s)
            \<and> setPathAndSave sample_rt no_faults s ?raw ?v old_files
                = (Inl (TraversalFailure [KStr ''a'']), s, old_files)"
    by simp
  with i have 1: "setPath number_store ?raw ?v = (Inl (TraversalFailure [KStr ''a'']), number_store)"
    "setPathAndSave sample_rt no_faults number_store ?raw ?v old_files
       = (Inl (TraversalFailure [KStr ''a'']), number_store, old_files)"
    by blast+
  have m: "message (TraversalFailure [KStr ''a''])
        = ''Cannot traverse through non-object at '' @ [CHR 0x27] @ ''a'' @ [CHR 0x27]"
    by code_simp
  from g have g': "get_prop (data number_store) ''a'' = Inr (JNum (Fin 5))" by (simp add: i)
  let ?f = "JObj [(''a'', JFunction)]"
  let ?fs = "sample_store\<lparr>data := ?f\<rparr>"
  have k: "initialized ?fs" "\<not> cloneable ?f" "data ?fs = ?f" by (simp_all add: sample_store_def)
  have rf: "reached ?keys 0 ?f = Inr ?f" by simp
  have gf: "get_prop ?f (prop_name (?keys ! 0)) = Inr JFunction" by simp
  have nf: "\<not> nullish JFunction" "typeof JFunction \<noteq> ''object''" by simp_all
  note tf = C8_traversal_amended[OF v l rf gf nf, of ?v sample_rt no_faults old_files]
  from tf have 2: "setAtPath ?f ?keys ?v = Inl (TraversalFailure [KStr ''a''])" by simp
  from tf have "\<forall>s. initialized s \<and> data s = ?f \<and> \<not> cloneable ?f \<longrightarrow>
              setPath s ?raw ?v = (Inl DataCloneError, s)"
    by simp
  with k have 3: "setPath ?fs ?raw ?v = (Inl DataCloneError, ?fs)" by blast
  let ?rawt = "[JStr ''toString'', JStr ''b'']"
  let ?keyst = "[KStr ''toString'', KStr ''b'']"
  have e: "initialized sample_store" "cloneable (data sample_store)" "data sample_store = JObj []"
    by (simp_all add: sample_store_def)
  have vt: "validateKeys ?rawt = Inr ?keyst" by (simp add: validateKeys_def)
  have lt: "0 + 1 < length ?keyst" by simp
  have rt: "reached ?keyst 0 (data sample_store) = Inr (JObj [])" by (simp add: e)
  have gt: "get_prop (JObj []) (prop_name (?keyst ! 0)) = Inr JFunction"
    by (simp add: inherited_of_object_def object_prototype_keys_def)
  from C8_traversal_amended[OF vt lt rt gt nf, of ?v sample_rt no_faults old_files]
  have "\<forall>s. initialized s \<and> data s = data sample_store \<and> cloneable (data sample_store) \<longrightarrow>
              setPath s ?rawt ?v = (Inl (TraversalFailure [KStr ''toString'']), s)"
    by simp
  with e have 4: "setPath sample_store ?rawt ?v = (Inl (TraversalFailure [KStr ''toString'']), sample_store)"
    by blast
  from gt have gt': "get_prop (data sample_store) ''toString'' = Inr JFunction" by (simp add: e)
  have u: "\<not> initialized fresh_store" by (simp add: fresh_store_def sample_store_def)
  from t have "\<forall>s. \<not> initialized s \<longrightarrow> setPath s ?raw ?v = (Inl NotInitialized, s)" by simp
  with u have 5: "setPath fresh_store ?raw ?v = (Inl NotInitialized, fresh_store)" by blast
  show ?thesis using v i(1,2) g' 0 1 m 2 k(2) 3 vt gt' 4 u 5 by simp
qed

text \<open>
  Claim C8 as worded fails for a stored \<^verbatim>\<open>null\<close>: in \<^verbatim>\<open>{a: null}\<close> the path \<^verbatim>\<open>['a']\<close>
  exists (\<^verbatim>\<open>hasPath\<close> says so) and holds a value that is no container, yet
  \<^verbatim>\<open>setPath(['a', 'b'], 1)\<close> succeeds and replaces the \<^verbatim>\<open>null\<close> by \<^verbatim>\<open>{b: 1}\<close>.
\<close>

theorem C8_stored_null_counterexample:
  "get_prop (data null_store) ''a'' = Inr JNull
   \<and> hasPath null_store [JStr ''a''] = Inr True
   \<and> \<not> is_container JNull
   \<and> setPath null_store [JStr ''a'', JStr ''b''] (JNum (Fin 1))
        = (Inr (), null_store\<lparr>data := JObj [(''a'', JObj [(''b'', JNum (Fin 1))])], dirty := True\<rparr>)"
proof -
  let ?raw = "[JStr ''a'', JStr ''b'']"
  let ?keys = "[KStr ''a'', KStr ''b'']"
  have i: "initialized null_store" "cloneable (data null_store)" "data null_store = JObj [(''a'', JNull)]"
    by (simp_all add: null_store_def sample_store_def)
  have v: "validateKeys ?raw = Inr ?keys" by (simp add: validateKeys_def)
  have a: "setAtPath (data null_store) ?keys (JNum (Fin 1)) = Inr (JObj [(''a'', JObj [(''b'', JNum (Fin 1))])])"
    unfolding i(3) by code_simp
  from setPath_mutator_succeeds[OF i(1,2) v _ a]
  have 1: "setPath null_store ?raw (JNum (Fin 1))
        = (Inr (), null_store\<lparr>data := JObj [(''a'', JObj [(''b'', JNum (Fin 1))])], dirty := True\<rparr>)"
    by simp
  have h: "hasPath null_store [JStr ''a''] = Inr True"
    by (simp add: hasPath_def getPath_def i validateKeys_def)
  show ?thesis using 1 h by (simp add: i)
qed

section \<open>The serialized-access queue: proofs\<close>



lemma inv_new: "mutex_inv new_mutex 0"
  by (simp add: mutex_inv_def new_mutex_def)

lemma phase_set_phase:
  "i < length (calls m) \<Longrightarrow>
     phase_of (m\<lparr>calls := set_phase m i ph, trace := t\<rparr>) j = (if j = i then ph else phase_of m j)"
  "i < length (calls m) \<Longrightarrow>
     phase_of (m\<lparr>resolved := r, calls := set_phase m i ph, trace := t\<rparr>) j = (if j = i then ph else phase_of m j)"
  by (auto simp: phase_of_def set_phase_def nth_list_update)

lemma prev_set_phase:
  "i < length (calls m) \<Longrightarrow> prev_of (m\<lparr>calls := set_phase m i ph, trace := t\<rparr>) j = prev_of m j"
  "i < length (calls m) \<Longrightarrow> prev_of (m\<lparr>resolved := r, calls := set_phase m i ph, trace := t\<rparr>) j = prev_of m j"
  "i < length (calls m) \<Longrightarrow> next_of (m\<lparr>calls := set_phase m i ph, trace := t\<rparr>) j = next_of m j"
  "i < length (calls m) \<Longrightarrow> next_of (m\<lparr>resolved := r, calls := set_phase m i ph, trace := t\<rparr>) j = next_of m j"
  by (auto simp: prev_of_def next_of_def set_phase_def nth_list_update)

lemma length_set_phase: "length (set_phase m i ph) = length (calls m)"
  by (simp add: set_phase_def)

lemma inv_step:
  assumes "mutex_inv m k" "step e m = Some m'"
  shows "\<exists>k'. mutex_inv m' k'"
proof (cases e)
  case Call
  with assms(2) have m': "m' = m\<lparr>queue := fresh m, fresh := Suc (fresh m),
              calls := calls m @ [(queue m, fresh m, Waiting)]\<rparr>" by simp
  have "mutex_inv m' k"
    using assms(1) unfolding mutex_inv_def m'
    by (auto simp: phase_of_def prev_of_def next_of_def nth_append)
  then show ?thesis by blast
next
  case (Resume i)
  with assms(2) have en: "i < length (calls m)" "phase_of m i = Waiting" "prev_of m i \<in> set (resolved m)"
    and m': "m' = m\<lparr>calls := set_phase m i Running, trace := trace m @ [Begin i]\<rparr>"
    by (auto split: if_splits)
  from assms(1) en have "i \<le> k" by (auto simp: mutex_inv_def)
  moreover from assms(1) en(2) have "\<not> i < k" by (auto simp: mutex_inv_def)
  ultimately have ik: "i = k" by simp
  have "mutex_inv m' k"
    using assms(1) en unfolding mutex_inv_def m' ik
    by (auto simp: phase_set_phase prev_set_phase length_set_phase)
  then show ?thesis by blast
next
  case (Suspend i)
  with assms show ?thesis by (auto split: if_splits)
next
  case (Finish i)
  with assms(2) have en: "i < length (calls m)" "phase_of m i = Running"
    and m': "m' = m\<lparr>resolved := next_of m i # resolved m, calls := set_phase m i Done,
                    trace := trace m @ [End i]\<rparr>"
    by (auto split: if_splits)
  from assms(1) en have "\<not> i < k" "\<not> k < i" by (auto simp: mutex_inv_def)
  then have ik: "i = k" by simp
  have "{0..k} \<union> {Suc k} = {0..Suc k}" by auto
  then have "mutex_inv m' (Suc k)"
    using assms(1) en unfolding mutex_inv_def m' ik
    by (auto simp: phase_set_phase prev_set_phase length_set_phase less_Suc_eq)
  then show ?thesis by blast
qed

lemma inv_run: "mutex_inv m k \<Longrightarrow> run es m = Some m' \<Longrightarrow> \<exists>k'. mutex_inv m' k'"
proof (induction es arbitrary: m k)
  case Nil
  then show ?case by auto
next
  case (Cons e es)
  then obtain m1 where s: "step e m = Some m1" and r: "run es m1 = Some m'"
    by (auto split: option.splits)
  from inv_step[OF Cons.prems(1) s] obtain k1 where "mutex_inv m1 k1" by blast
  from Cons.IH[OF this r] show ?case .
qed


text \<open>
  Claim C6. After any schedule of steps that runs from a new mutex, whatever the number
  of calls and however often the bodies suspend: the trace of body begins and ends is
  that of the first \<open>k\<close> calls, in call order, each ended before the next begins,
  possibly followed by the begin of call \<open>k\<close>; at most one body is running; and every
  call made before a call whose body has begun is done. So when \<^verbatim>\<open>save()\<close> is queued
  before \<^verbatim>\<open>reload()\<close>, the body of the save, which holds its write, has ended before the
  body of the reload, which holds its read, begins.
\<close>

theorem C6_runExclusive_fifo:
  assumes "run es new_mutex = Some m"
  shows "(\<exists>k\<le>length (calls m). trace m = fifo_trace k \<or> trace m = fifo_trace k @ [Begin k])
       \<and> (\<forall>i j. i < length (calls m) \<and> j < length (calls m)
                \<and> phase_of m i = Running \<and> phase_of m j = Running \<longrightarrow> i = j)
       \<and> (\<forall>i j. i < j \<and> j < length (calls m) \<and> phase_of m j \<noteq> Waiting \<longrightarrow> phase_of m i = Done)"
proof -
  from inv_run[OF inv_new assms] obtain k where inv: "mutex_inv m k" by blast
  have 1: "\<exists>k\<le>length (calls m). trace m = fifo_trace k \<or> trace m = fifo_trace k @ [Begin k]"
    using inv unfolding mutex_inv_def by (intro exI[of _ k]) auto
  have run_k: "\<And>i. i < length (calls m) \<Longrightarrow> phase_of m i = Running \<Longrightarrow> i = k"
  proof -
    fix i assume "i < length (calls m)" "phase_of m i = Running"
    with inv have "\<not> i < k" "\<not> k < i" unfolding mutex_inv_def by auto
    then show "i = k" by simp
  qed
  have 2: "\<forall>i j. i < length (calls m) \<and> j < length (calls m)
                \<and> phase_of m i = Running \<and> phase_of m j = Running \<longrightarrow> i = j"
    using run_k by blast
  have 3: "\<forall>i j. i < j \<and> j < length (calls m) \<and> phase_of m j \<noteq> Waiting \<longrightarrow> phase_of m i = Done"
  proof (intro allI impI)
    fix i j assume a: "i < j \<and> j < length (calls m) \<and> phase_of m j \<noteq> Waiting"
    with inv have "\<not> k < j" unfolding mutex_inv_def by auto
    with a have "i < k" by simp
    with inv show "phase_of m i = Done" unfolding mutex_inv_def by auto
  qed
  show ?thesis using 1 2 3 by blast
qed



lemma sample_run: "run sample_schedule new_mutex = Some sample_mutex"
  by (simp add: sample_schedule_def new_mutex_def sample_mutex_def phase_of_def prev_of_def
        next_of_def set_phase_def)

text \<open>
  The theorem at a schedule of three calls, in which the first body suspends twice while
  a third call arrives. A schedule in which the second body begins before the first has
  ended does not run.
\<close>

theorem C6_runExclusive_fifo_witness:
  "run sample_schedule new_mutex = Some sample_mutex
   \<and> trace sample_mutex = fifo_trace 1 @ [Begin 1]
   \<and> phase_of sample_mutex 0 = Done \<and> phase_of sample_mutex 1 = Running
   \<and> phase_of sample_mutex 2 = Waiting
   \<and> run [Call, Call, Resume 1] new_mutex = None
   \<and> run [Call, Call, Resume 0, Resume 1] new_mutex = None"
proof -
  note r = sample_run
  from C6_runExclusive_fifo[OF r]
  have ord: "\<And>i j. i < j \<and> j < length (calls sample_mutex) \<and> phase_of sample_mutex j \<noteq> Waiting
           \<Longrightarrow> phase_of sample_mutex i = Done" by blast
  have p1: "phase_of sample_mutex (Suc 0) = Running" and l: "length (calls sample_mutex) = 3"
    by (simp_all add: sample_mutex_def phase_of_def)
  have d: "phase_of sample_mutex 0 = Done"
    by (rule ord[of 0 "Suc 0"]) (simp add: p1 l)
  have t: "trace sample_mutex = fifo_trace 1 @ [Begin 1]"
    by (simp add: sample_mutex_def)
  have n1: "run [Call, Call, Resume 1] new_mutex = None"
    by (simp add: new_mutex_def phase_of_def prev_of_def)
  have n2: "run [Call, Call, Resume 0, Resume 1] new_mutex = None"
    by (simp add: new_mutex_def phase_of_def prev_of_def next_of_def set_phase_def)
  show ?thesis using r d t n1 n2 by (simp add: sample_mutex_def phase_of_def)
qed

end
